theory Spec2Isabelle
  imports Main "HOL-Library.Sublist" "HOL-Library.Multiset"
begin

section \<open>The Python indexer of doctree\<close>

text \<open>
  The development embeds \<^verbatim>\<open>pythonIndexer.IndexDir\<close> (package \<^verbatim>\<open>python\<close>) and its helpers.
  Go strings and byte slices are \<^typ>\<open>string\<close> (lists of bytes). What the function takes
  from outside its package (the file system, the tree-sitter parser, the constants of
  package \<^verbatim>\<open>schema\<close>) is an argument of the model.
\<close>

subsection \<open>Functions of the Go standard library\<close>

text \<open>\<^verbatim>\<open>strings.Contains\<close>: a scan for the first position where \<open>substr\<close> starts.\<close>

fun Contains :: "string \<Rightarrow> string \<Rightarrow> bool" where
  "Contains [] substr = (substr = [])"
| "Contains (c # cs) substr = (prefix substr (c # cs) \<or> Contains cs substr)"

definition HasPrefix :: "string \<Rightarrow> string \<Rightarrow> bool" where
  "HasPrefix s pre = (length pre \<le> length s \<and> take (length pre) s = pre)"

definition HasSuffix :: "string \<Rightarrow> string \<Rightarrow> bool" where
  "HasSuffix s suf = (length suf \<le> length s \<and> drop (length s - length suf) s = suf)"

definition TrimPrefix :: "string \<Rightarrow> string \<Rightarrow> string" where
  "TrimPrefix s pre = (if HasPrefix s pre then drop (length pre) s else s)"

definition TrimSuffix :: "string \<Rightarrow> string \<Rightarrow> string" where
  "TrimSuffix s suf = (if HasSuffix s suf then take (length s - length suf) s else s)"

text \<open>
  \<^verbatim>\<open>strings.ReplaceAll(s, old, new)\<close> for a one-byte \<open>old\<close>, which is how the indexer
  calls it (\<^verbatim>\<open>"/"\<close>).
\<close>

definition ReplaceAll :: "string \<Rightarrow> char \<Rightarrow> string \<Rightarrow> string" where
  "ReplaceAll s old new = concat (map (\<lambda>c. if c = old then new else [c]) s)"

fun Join :: "string list \<Rightarrow> string \<Rightarrow> string" where
  "Join [] sep = []"
| "Join [x] sep = x"
| "Join (x # y # ys) sep = x @ sep @ Join (y # ys) sep"

text \<open>
  \<^verbatim>\<open>filepath.Ext\<close> (with \<^verbatim>\<open>/\<close> as the separator): the loop runs from the last byte
  towards the first, stops at a separator and returns the suffix that starts at the first
  dot it meets. \<open>ext_scan\<close> takes the bytes still to visit (last first) and the suffix
  already passed.
\<close>

fun ext_scan :: "string \<Rightarrow> string \<Rightarrow> string" where
  "ext_scan [] passed = []"
| "ext_scan (c # cs) passed =
     (if c = CHR ''/'' then []
      else if c = CHR ''.'' then c # passed
      else ext_scan cs (c # passed))"

definition Ext :: "string \<Rightarrow> string" where
  "Ext path = ext_scan (rev path) []"

text \<open>
  Go's \<^verbatim>\<open>int\<close> (64 bits on the platforms doctree is built for): addition wraps in two's
  complement.
\<close>

definition int_add :: "int \<Rightarrow> int \<Rightarrow> int" where
  "int_add a b = signed_take_bit 63 (a + b)"

text \<open>
  \<^verbatim>\<open>for k, v := range m\<close> over a Go map visits every entry once, in an order the language
  leaves unspecified and the runtime varies from one loop to the next. A map is held as
  the list of its entries; the runtime's choices are the argument \<open>picks\<close>: each number
  selects the next entry among those not visited yet.
\<close>

function range_map :: "nat list \<Rightarrow> 'a list \<Rightarrow> 'a list" where
  "range_map picks [] = []"
| "range_map [] (x # xs) = x # xs"
| "range_map (n # ns) (x # xs) =
     (let i = n mod length (x # xs)
      in (x # xs) ! i # range_map ns (take i (x # xs) @ drop (Suc i) (x # xs)))"
  by pat_completeness auto
termination
  by (relation "measure (\<lambda>(picks, xs). length xs)") auto

text \<open>Assignment \<^verbatim>\<open>m[k] = v\<close> to a Go map held as the list of its entries.\<close>

fun map_assign :: "('k \<times> 'v) list \<Rightarrow> 'k \<Rightarrow> 'v \<Rightarrow> ('k \<times> 'v) list" where
  "map_assign [] k v = [(k, v)]"
| "map_assign ((k', v') # m) k v =
     (if k' = k then (k, v) # m else (k', v') # map_assign m k v)"

subsection \<open>Errors and contexts\<close>

text \<open>
  \<open>Wrap e msg\<close> is \<^verbatim>\<open>errors.Wrap(e, msg)\<close> of \<^verbatim>\<open>github.com/pkg/errors\<close> for a non-nil
  \<open>e\<close>; \<open>Failure\<close> is an error of the file system or of tree-sitter, known by its text.
\<close>

datatype error =
    Canceled
  | DeadlineExceeded
  | Failure string
  | Wrap error string

fun Error :: "error \<Rightarrow> string" where
  "Error Canceled = ''context canceled''"
| "Error DeadlineExceeded = ''context deadline exceeded''"
| "Error (Failure s) = s"
| "Error (Wrap e msg) = msg @ '': '' @ Error e"

text \<open>A \<^verbatim>\<open>context.Context\<close>, as far as \<^verbatim>\<open>ctx.Err()\<close> tells: \<open>None\<close> while it is live.\<close>

datatype go_context = Context (Err: "error option")

subsection \<open>The schema\<close>

text \<open>
  Modelled from the spec: the struct declarations of package \<^verbatim>\<open>schema\<close> (\<^verbatim>\<open>Section\<close>,
  \<^verbatim>\<open>Page\<close>, \<^verbatim>\<open>Library\<close>, \<^verbatim>\<open>Index\<close>) are not among the sources. The types below have
  the attributes that section 3 of the specification lists, under the field names of the
  composite literals in \<^verbatim>\<open>IndexDir\<close>; \<^verbatim>\<open>schema.Markdown\<close> is a string. A field that a
  literal leaves out has Go's zero value. The fields \<^verbatim>\<open>Detail\<close> and \<^verbatim>\<open>SearchKey\<close> of a Page
  and \<^verbatim>\<open>ID\<close> of a Library are \<open>PageDetail\<close>, \<open>PageSearchKey\<close> and \<open>LibraryID\<close> here. The
  constants \<^verbatim>\<open>schema.LatestVersion\<close> and \<^verbatim>\<open>schema.LanguagePython\<close> are arguments of the
  model (fields of \<open>deps\<close> below), held as strings.
\<close>

datatype Section = Section
  (ID: string)
  (ShortLabel: string)
  (Label: string)
  (Detail: string)
  (SearchKey: "string list")
  (Category: bool)
  (Children: "Section list")

record Page =
  Path :: string
  Title :: string
  PageDetail :: string
  PageSearchKey :: "string list"
  Sections :: "Section list"

record Library =
  Name :: string
  Repository :: string
  LibraryID :: string
  Version :: string
  VersionType :: string
  Pages :: "Page list"

record Index =
  SchemaVersion :: string
  Language :: string
  NumFiles :: int
  NumBytes :: int
  Libraries :: "Library list"

subsection \<open>Tree-sitter\<close>

text \<open>
  A node is known by the byte range it covers; \<^verbatim>\<open>Content\<close> slices the input. (Go panics
  on a range outside the input; the nodes of a tree lie inside the input it was parsed
  from.)
\<close>

record Node =
  StartByte :: nat
  EndByte :: nat

definition Content :: "Node \<Rightarrow> string \<Rightarrow> string" where
  "Content n input = take (EndByte n - StartByte n) (drop (StartByte n) input)"

text \<open>
  A query match is the list of its captures, each with the name that
  \<^verbatim>\<open>CaptureNameForId\<close> gives to its index. A parsed tree is known by the matches that
  the two queries of the indexer produce on its root node, in the order in which
  \<^verbatim>\<open>NextMatch\<close> returns them.
\<close>

type_synonym QueryMatch = "(string \<times> Node) list"

record Tree =
  module_matches :: "QueryMatch list"
  function_matches :: "QueryMatch list"

datatype pattern = ModuleQuery | FunctionQuery

text \<open>
  What \<^verbatim>\<open>IndexDir\<close> calls outside its package. \<open>WalkDir dir\<close> is the sequence of calls
  \<^verbatim>\<open>fs.WalkDir(os.DirFS(dir), ".", fn)\<close> makes to \<open>fn\<close> as long as \<open>fn\<close> returns nil:
  the path, \<^verbatim>\<open>d.IsDir()\<close> and the error argument. \<open>NewQuery p\<close> is the error of
  \<^verbatim>\<open>sitter.NewQuery\<close> on the pattern, if any.
\<close>

record deps =
  WalkDir :: "string \<Rightarrow> (string \<times> bool \<times> error option) list"
  ReadFile :: "string \<Rightarrow> string \<Rightarrow> error + string"
  ParseCtx :: "go_context \<Rightarrow> string \<Rightarrow> error + Tree"
  NewQuery :: "pattern \<Rightarrow> error option"
  LatestVersion :: string
  LanguagePython :: string

subsection \<open>Helpers of the indexer\<close>

definition sanitizeDocs :: "string \<Rightarrow> string" where
  "sanitizeDocs s =
     TrimSuffix (TrimPrefix s [CHR 0x22, CHR 0x22, CHR 0x22]) [CHR 0x22, CHR 0x22, CHR 0x22]"

record moduleInfo =
  path :: string
  docs :: string

fun firstCaptureContentOr :: "string \<Rightarrow> Node list \<Rightarrow> string \<Rightarrow> string" where
  "firstCaptureContentOr content [] defaultValue = defaultValue"
| "firstCaptureContentOr content (c # cs) defaultValue = Content c content"

definition joinCaptures :: "string \<Rightarrow> Node list \<Rightarrow> string \<Rightarrow> string" where
  "joinCaptures content captures sep =
     Join (foldl (\<lambda>v capture. v @ [Content capture content]) [] captures) sep"

definition getCaptures :: "QueryMatch \<Rightarrow> string \<Rightarrow> Node list" where
  "getCaptures m =
     foldl (\<lambda>captures (cname, node). captures(cname := captures cname @ [node])) (\<lambda>_. []) m"

subsection \<open>IndexDir\<close>

text \<open>The callback given to \<^verbatim>\<open>fs.WalkDir\<close>, and the walk that stops at its first error.\<close>

fun walk_fn :: "string list \<Rightarrow> string \<times> bool \<times> error option \<Rightarrow> error + string list" where
  "walk_fn sources (p, is_dir, Some err) = Inl err"
| "walk_fn sources (p, is_dir, None) =
     Inr (if \<not> is_dir
          then (let ext = Ext p
                in if ext = ''.py'' \<or> ext = ''.py3'' then sources @ [p] else sources)
          else sources)"

fun walk :: "string list \<Rightarrow> (string \<times> bool \<times> error option) list \<Rightarrow> error + string list" where
  "walk sources [] = Inr sources"
| "walk sources (v # vs) =
     (case walk_fn sources v of Inl err \<Rightarrow> Inl err | Inr sources' \<Rightarrow> walk sources' vs)"

definition skipped :: "string \<Rightarrow> bool" where
  "skipped p = (Contains p ''test_'' \<or> Contains p ''_test'' \<or> Contains p ''tests'')"

definition mod_name :: "string \<Rightarrow> string" where
  "mod_name p = ReplaceAll (TrimSuffix p ''.py'') CHR ''/'' ''.''"

text \<open>
  The body of the loop over the matches of the module query: it sets \<open>modName\<close> and
  assigns to \<open>mods\<close>.
\<close>

definition module_clause ::
  "string \<Rightarrow> string \<Rightarrow> string \<times> (string \<times> moduleInfo) list \<Rightarrow> QueryMatch
    \<Rightarrow> string \<times> (string \<times> moduleInfo) list" where
  "module_clause p content acc match =
     (let captures = getCaptures match;
          modDocs = sanitizeDocs (joinCaptures content (captures ''module_docs'') [CHR 0x0A]);
          modName = mod_name p
      in (modName, map_assign (snd acc) modName \<lparr>path = p, docs = modDocs\<rparr>))"

definition unexported :: "string \<Rightarrow> bool" where
  "unexported funcName =
     (length funcName > 0 \<and> funcName ! 0 = CHR ''_''
       \<and> funcName ! (length funcName - 1) \<noteq> CHR ''_'')"

text \<open>The body of the loop over the matches of the function query.\<close>

definition function_definition ::
  "string \<Rightarrow> string \<Rightarrow> (string \<Rightarrow> Section list) \<Rightarrow> QueryMatch \<Rightarrow> (string \<Rightarrow> Section list)" where
  "function_definition modName content functionsByMod match =
     (let captures = getCaptures match;
          funcDocs = sanitizeDocs (joinCaptures content (captures ''func_docs'') [CHR 0x0A]);
          funcName = firstCaptureContentOr content (captures ''func_name'') '''';
          funcParams = firstCaptureContentOr content (captures ''func_params'') '''';
          funcResult = firstCaptureContentOr content (captures ''func_result'') ''''
      in if unexported funcName then functionsByMod
         else
           (let funcLabel = ''def '' @ funcName @ funcParams;
                funcLabel = (if funcResult \<noteq> '''' then funcLabel @ '' -> '' @ funcResult
                             else funcLabel);
                funcs = functionsByMod modName;
                funcs = funcs @ [Section funcName funcName funcLabel funcDocs
                                   [modName, ''.'', funcName] False []]
            in functionsByMod(modName := funcs)))"

record state =
  files :: int
  bytes :: int
  mods :: "(string \<times> moduleInfo) list"
  functionsByMod :: "string \<Rightarrow> Section list"

text \<open>The body of the loop over \<open>sources\<close>; \<open>Inl\<close> is a \<^verbatim>\<open>return nil, err\<close>.\<close>

definition index_file :: "deps \<Rightarrow> go_context \<Rightarrow> string \<Rightarrow> state \<Rightarrow> string \<Rightarrow> error + state" where
  "index_file d ctx dir st p =
     (if skipped p then Inr st
      else case ReadFile d dir p of
        Inl err \<Rightarrow> Inl (Wrap err ''ReadFile'')
      | Inr content \<Rightarrow>
          (let files' = int_add (files st) 1;
               bytes' = int_add (bytes st) (int (length content))
           in case ParseCtx d ctx content of
             Inl err \<Rightarrow> Inl (Wrap err ''ParseCtx'')
           | Inr tree \<Rightarrow>
               (case NewQuery d ModuleQuery of
                  Some err \<Rightarrow> Inl (Wrap err ''NewQuery'')
                | None \<Rightarrow>
                    (let (modName, mods') =
                           foldl (module_clause p content) ('''', mods st) (module_matches tree)
                     in case NewQuery d FunctionQuery of
                          Some err \<Rightarrow> Inl (Wrap err ''NewQuery'')
                        | None \<Rightarrow>
                            Inr \<lparr>files = files', bytes = bytes', mods = mods',
                                 functionsByMod =
                                   foldl (function_definition modName content)
                                     (functionsByMod st) (function_matches tree)\<rparr>))))"

fun index_files :: "deps \<Rightarrow> go_context \<Rightarrow> string \<Rightarrow> state \<Rightarrow> string list \<Rightarrow> error + state" where
  "index_files d ctx dir st [] = Inr st"
| "index_files d ctx dir st (p # ps) =
     (case index_file d ctx dir st p of
        Inl err \<Rightarrow> Inl err
      | Inr st' \<Rightarrow> index_files d ctx dir st' ps)"

text \<open>The body of the loop over \<open>mods\<close>.\<close>

definition module_page :: "(string \<Rightarrow> Section list) \<Rightarrow> string \<times> moduleInfo \<Rightarrow> Page" where
  "module_page funcsByMod entry =
     (let modName = fst entry; moduleInfo = snd entry;
          functionsSection =
            Section ''func'' ''func'' ''Functions'' '''' [] True (funcsByMod modName)
      in \<lparr>Path = path moduleInfo, Title = ''Module '' @ modName, PageDetail = docs moduleInfo,
          PageSearchKey = [modName], Sections = [functionsSection]\<rparr>)"

definition initial :: state where
  "initial = \<lparr>files = 0, bytes = 0, mods = [], functionsByMod = (\<lambda>_. [])\<rparr>"

text \<open>
  \<^verbatim>\<open>IndexDir\<close> returns the pair \<^verbatim>\<open>(*schema.Index, error)\<close>; \<open>picks\<close> is the order in which
  the runtime lets the last loop visit \<open>mods\<close>.
\<close>

definition IndexDir ::
  "deps \<Rightarrow> nat list \<Rightarrow> go_context \<Rightarrow> string \<Rightarrow> Index option \<times> error option" where
  "IndexDir d picks ctx dir =
     (case walk [] (WalkDir d dir) of
        Inl err \<Rightarrow> (None, Some (Wrap err ''WalkDir''))
      | Inr sources \<Rightarrow>
          (case index_files d ctx dir initial sources of
             Inl err \<Rightarrow> (None, Some err)
           | Inr st \<Rightarrow>
               (let pages = map (module_page (functionsByMod st)) (range_map picks (mods st))
                in (Some \<lparr>SchemaVersion = LatestVersion d, Language = LanguagePython d,
                          NumFiles = files st, NumBytes = bytes st,
                          Libraries =
                            [\<lparr>Name = ''TODO'', Repository = ''TODO'', LibraryID = ''TODO'',
                              Version = ''TODO'', VersionType = ''TODO'', Pages = pages\<rparr>]\<rparr>,
                    None))))"

section \<open>Notions for the statements\<close>

subsection \<open>Reading an Index\<close>

text \<open>
  The Pages of an Index, all Sections below them (each Section with its descendants,
  parents first), and the number of nodes on the longest path from a Section down to a
  leaf.
\<close>

definition index_pages :: "Index \<Rightarrow> Page list" where
  "index_pages idx = concat (map Pages (Libraries idx))"

fun subsections :: "Section \<Rightarrow> Section list" where
  "subsections (Section i sl l dt k c ch) = Section i sl l dt k c ch # concat (map subsections ch)"

definition index_sections :: "Index \<Rightarrow> Section list" where
  "index_sections idx = concat (map subsections (concat (map Sections (index_pages idx))))"

fun depth :: "Section \<Rightarrow> nat" where
  "depth (Section i sl l dt k c ch) = Suc (foldr max (map depth ch) 0)"

text \<open>
  The concatenation of the SearchKeys along a path from a Page through Sections, and the
  list of these concatenations for the function Sections of an Index (Page, category
  node, function).
\<close>

definition key_path :: "Page \<Rightarrow> Section list \<Rightarrow> string list" where
  "key_path pg secs = PageSearchKey pg @ concat (map SearchKey secs)"

definition function_key_paths :: "Index \<Rightarrow> string list list" where
  "function_key_paths idx =
     concat (map (\<lambda>pg. concat (map (\<lambda>cat. map (\<lambda>s. key_path pg [cat, s]) (Children cat))
                                  (Sections pg)))
               (index_pages idx))"

text \<open>
  The groups of siblings of an Index, each as the list of its IDs: the top-level Sections
  of every Page and the children of every Section.
\<close>

definition sibling_ids :: "Index \<Rightarrow> string list list" where
  "sibling_ids idx =
     map (\<lambda>pg. map ID (Sections pg)) (index_pages idx)
       @ map (\<lambda>s. map ID (Children s)) (index_sections idx)"

text \<open>
  An Index with the Pages of every Library taken as a multiset: what is left of it when
  the order of the Pages is forgotten.
\<close>

definition up_to_page_order ::
  "Index \<Rightarrow> string \<times> string \<times> int \<times> int
     \<times> (string \<times> string \<times> string \<times> string \<times> string \<times> Page multiset) list" where
  "up_to_page_order idx =
     (SchemaVersion idx, Language idx, NumFiles idx, NumBytes idx,
      map (\<lambda>l. (Name l, Repository l, LibraryID l, Version l, VersionType l, mset (Pages l)))
        (Libraries idx))"

subsection \<open>Notions of the specification\<close>

text \<open>
  The files the specification lets the extractor discover: the entries of the walk that
  are no directories and whose path ends in \<^verbatim>\<open>.py\<close> or \<^verbatim>\<open>.py3\<close>; those of them that
  are no test fixtures by the naming heuristic; the module name of a path (the path without a
  trailing \<^verbatim>\<open>.py\<close>, every \<^verbatim>\<open>/\<close> replaced by a dot); and the canonical path of function
  \<open>f\<close> of module \<open>m\<close>.
\<close>

definition discovered :: "(string \<times> bool \<times> error option) list \<Rightarrow> string list" where
  "discovered vs =
     map fst (filter (\<lambda>v. \<not> fst (snd v) \<and> (suffix ''.py'' (fst v) \<or> suffix ''.py3'' (fst v))) vs)"

definition kept_files :: "deps \<Rightarrow> string \<Rightarrow> string list" where
  "kept_files d dir =
     filter (\<lambda>p. \<not> (sublist ''test_'' p \<or> sublist ''_test'' p \<or> sublist ''tests'' p))
       (discovered (WalkDir d dir))"

definition dotted_name :: "string \<Rightarrow> string" where
  "dotted_name p =
     map (\<lambda>c. if c = CHR ''/'' then CHR ''.'' else c)
       (if suffix ''.py'' p then take (length p - 3) p else p)"

definition canonical_path :: "string \<Rightarrow> string \<Rightarrow> string list" where
  "canonical_path m f = [m, ''.'', f]"

subsection \<open>What one file contributes\<close>

text \<open>
  The loops of \<^verbatim>\<open>IndexDir\<close> in closed form. \<open>func_name\<close> and \<open>function_section\<close> are the
  name and the Section that the body of the function loop computes for a match;
  \<open>parsed\<close> is the content and the tree of a file when it can be read and parsed;
  \<open>current_module\<close> is the value of \<^verbatim>\<open>modName\<close> after the module loop; \<open>file_mods\<close> and
  \<open>file_functions\<close> are what the file adds to \<^verbatim>\<open>mods\<close> and to \<^verbatim>\<open>functionsByMod[m]\<close>;
  \<open>module_functions\<close> is \<^verbatim>\<open>functionsByMod[m]\<close> after the loop over the discovered files,
  and \<open>module_function_names\<close> the names of the definitions they come from.
\<close>

definition func_name :: "string \<Rightarrow> QueryMatch \<Rightarrow> string" where
  "func_name content m = firstCaptureContentOr content (getCaptures m ''func_name'') ''''"

definition function_section :: "string \<Rightarrow> string \<Rightarrow> QueryMatch \<Rightarrow> Section" where
  "function_section modName content m =
     (let funcParams = firstCaptureContentOr content (getCaptures m ''func_params'') '''';
          funcResult = firstCaptureContentOr content (getCaptures m ''func_result'') ''''
      in Section (func_name content m) (func_name content m)
           (''def '' @ func_name content m @ funcParams
              @ (if funcResult \<noteq> '''' then '' -> '' @ funcResult else ''''))
           (sanitizeDocs (joinCaptures content (getCaptures m ''func_docs'') [CHR 0x0A]))
           [modName, ''.'', func_name content m] False [])"

definition exported_sections :: "string \<Rightarrow> string \<Rightarrow> QueryMatch list \<Rightarrow> Section list" where
  "exported_sections modName content ms =
     map (function_section modName content) (filter (\<lambda>m. \<not> unexported (func_name content m)) ms)"

definition exported_names :: "string \<Rightarrow> QueryMatch list \<Rightarrow> string list" where
  "exported_names content ms = filter (\<lambda>n. \<not> unexported n) (map (func_name content) ms)"

definition module_docs :: "string \<Rightarrow> QueryMatch \<Rightarrow> string" where
  "module_docs content m =
     sanitizeDocs (joinCaptures content (getCaptures m ''module_docs'') [CHR 0x0A])"

definition parsed :: "deps \<Rightarrow> go_context \<Rightarrow> string \<Rightarrow> string \<Rightarrow> (string \<times> Tree) option" where
  "parsed d ctx dir p =
     (case ReadFile d dir p of
        Inl err \<Rightarrow> None
      | Inr content \<Rightarrow>
          (case ParseCtx d ctx content of Inl err \<Rightarrow> None | Inr tree \<Rightarrow> Some (content, tree)))"

definition current_module :: "string \<Rightarrow> Tree \<Rightarrow> string" where
  "current_module p tree = (if module_matches tree = [] then '''' else mod_name p)"

definition file_mods ::
  "string \<Rightarrow> string \<Rightarrow> Tree \<Rightarrow> (string \<times> moduleInfo) list \<Rightarrow> (string \<times> moduleInfo) list" where
  "file_mods p content tree ms =
     (if module_matches tree = [] then ms
      else map_assign ms (mod_name p)
             \<lparr>path = p, docs = module_docs content (last (module_matches tree))\<rparr>)"

definition file_functions :: "deps \<Rightarrow> go_context \<Rightarrow> string \<Rightarrow> string \<Rightarrow> string \<Rightarrow> Section list" where
  "file_functions d ctx dir m p =
     (if skipped p then []
      else case parsed d ctx dir p of
        None \<Rightarrow> []
      | Some (content, tree) \<Rightarrow>
          if current_module p tree = m then exported_sections m content (function_matches tree)
          else [])"

definition file_size :: "deps \<Rightarrow> string \<Rightarrow> string \<Rightarrow> nat" where
  "file_size d dir p = (case ReadFile d dir p of Inl err \<Rightarrow> 0 | Inr content \<Rightarrow> length content)"

definition has_module :: "deps \<Rightarrow> go_context \<Rightarrow> string \<Rightarrow> string \<Rightarrow> bool" where
  "has_module d ctx dir p =
     (\<not> skipped p \<and>
      (case parsed d ctx dir p of None \<Rightarrow> False | Some (content, tree) \<Rightarrow> module_matches tree \<noteq> []))"

definition module_functions :: "deps \<Rightarrow> go_context \<Rightarrow> string \<Rightarrow> string \<Rightarrow> Section list" where
  "module_functions d ctx dir m =
     concat (map (file_functions d ctx dir m) (discovered (WalkDir d dir)))"

definition module_function_names :: "deps \<Rightarrow> go_context \<Rightarrow> string \<Rightarrow> string \<Rightarrow> string list" where
  "module_function_names d ctx dir m =
     concat (map (\<lambda>p. if skipped p then []
                       else case parsed d ctx dir p of
                         None \<Rightarrow> []
                       | Some (content, tree) \<Rightarrow>
                           if current_module p tree = m
                           then exported_names content (function_matches tree) else [])
               (discovered (WalkDir d dir)))"

subsection \<open>A file system for the examples\<close>

text \<open>
  Six directories, walked in the lexical order of \<^verbatim>\<open>fs.WalkDir\<close>, and a parser that answers
  as tree-sitter does on their files: \<^verbatim>\<open>proj\<close> (two modules, a test file, a file that is
  no source), \<^verbatim>\<open>acme\<close> (the module \<^verbatim>\<open>pkg\<close> with the function \<^verbatim>\<open>run\<close>), \<^verbatim>\<open>dup\<close> (a module
  that defines \<^verbatim>\<open>f\<close> twice), \<^verbatim>\<open>fixtures\<close> (test files only), \<^verbatim>\<open>big\<close> (one source file of
  1200000 bytes) and \<^verbatim>\<open>empty\<close>; any other directory does not exist.

  \<^verbatim>\<open>ParseCtx\<close> of go-tree-sitter returns an error only when the parse has produced no
  tree. Under a cancelled context the parse of a short input is as a rule complete
  before the parser sees the cancellation, and the tree is returned with no error; the
  parse of a long input is aborted and the context's error is returned. The parser of
  the examples does so, a long input being one of a million bytes or more. Of an empty
  input the module query has no match.

  The Indexes are those \<^verbatim>\<open>IndexDir\<close> returns for \<^verbatim>\<open>proj\<close>, \<^verbatim>\<open>acme\<close> and \<^verbatim>\<open>dup\<close> when the
  loop over \<^verbatim>\<open>mods\<close> runs in the order of insertion.
\<close>

definition pkg_src :: string where
  "pkg_src = ''def run(): pass'' @ [CHR 0x0A] @ ''def _hid(): pass'' @ [CHR 0x0A] @ ''def __str__(): pass''"

definition io_src :: string where
  "io_src = ''def load(p): pass''"

definition run_src :: string where
  "run_src = ''def run(): pass''"

definition dup_src :: string where
  "dup_src = ''def f(): pass'' @ [CHR 0x0A] @ ''def f(): pass''"

definition capture :: "string \<Rightarrow> nat \<Rightarrow> nat \<Rightarrow> string \<times> Node" where
  "capture cname s e = (cname, \<lparr>StartByte = s, EndByte = e\<rparr>)"

definition pkg_tree :: Tree where
  "pkg_tree = \<lparr>module_matches = [[]],
     function_matches =
       [[capture ''func_name'' 4 7, capture ''func_params'' 7 9],
        [capture ''func_name'' 20 24, capture ''func_params'' 24 26],
        [capture ''func_name'' 37 44, capture ''func_params'' 44 46]]\<rparr>"

definition io_tree :: Tree where
  "io_tree = \<lparr>module_matches = [[]],
     function_matches = [[capture ''func_name'' 4 8, capture ''func_params'' 8 11]]\<rparr>"

definition run_tree :: Tree where
  "run_tree = \<lparr>module_matches = [[]],
     function_matches = [[capture ''func_name'' 4 7, capture ''func_params'' 7 9]]\<rparr>"

definition dup_tree :: Tree where
  "dup_tree = \<lparr>module_matches = [[]],
     function_matches =
       [[capture ''func_name'' 4 5, capture ''func_params'' 5 7],
        [capture ''func_name'' 18 19, capture ''func_params'' 19 21]]\<rparr>"

definition big_src :: string where
  "big_src = concat (replicate 200000 (''x = 1'' @ [CHR 0x0A]))"

definition example_tree :: "string \<Rightarrow> Tree" where
  "example_tree content =
     (if content = pkg_src then pkg_tree
      else if content = io_src then io_tree
      else if content = run_src then run_tree
      else if content = dup_src then dup_tree
      else \<lparr>module_matches = (if content = [] then [] else [[]]), function_matches = []\<rparr>)"

definition disk :: deps where
  "disk = \<lparr>
     WalkDir = (\<lambda>dir.
       if dir = ''proj'' then
         [(''.'', True, None), (''README.md'', False, None), (''pkg.py'', False, None),
          (''pkg_test.py'', False, None), (''util'', True, None), (''util/io.py3'', False, None)]
       else if dir = ''acme'' then [(''.'', True, None), (''pkg.py'', False, None)]
       else if dir = ''dup'' then [(''.'', True, None), (''m.py'', False, None)]
       else if dir = ''fixtures'' then
         [(''.'', True, None), (''conftest_x.py'', False, None), (''tests'', True, None),
          (''tests/a.py'', False, None)]
       else if dir = ''big'' then [(''.'', True, None), (''big.py'', False, None)]
       else if dir = ''empty'' then [(''.'', True, None)]
       else [(''.'', False, Some (Failure ''stat .: no such file or directory''))]),
     ReadFile = (\<lambda>dir p.
       if dir = ''proj'' \<and> p = ''pkg.py'' then Inr pkg_src
       else if dir = ''proj'' \<and> p = ''util/io.py3'' then Inr io_src
       else if dir = ''acme'' \<and> p = ''pkg.py'' then Inr run_src
       else if dir = ''dup'' \<and> p = ''m.py'' then Inr dup_src
       else if dir = ''big'' \<and> p = ''big.py'' then Inr big_src
       else Inl (Failure (''open '' @ p @ '': no such file or directory''))),
     ParseCtx = (\<lambda>ctx content.
       case Err ctx of
         Some err \<Rightarrow>
           if 1000000 \<le> length content then Inl err else Inr (example_tree content)
       | None \<Rightarrow> Inr (example_tree content)),
     NewQuery = (\<lambda>q. None),
     LatestVersion = ''0.0.1'',
     LanguagePython = ''python''\<rparr>"

definition proj_index :: Index where
  "proj_index =
     \<lparr>SchemaVersion = ''0.0.1'', Language = ''python'', NumFiles = 2, NumBytes = 69,
      Libraries =
        [\<lparr>Name = ''TODO'', Repository = ''TODO'', LibraryID = ''TODO'', Version = ''TODO'',
          VersionType = ''TODO'',
          Pages =
            [\<lparr>Path = ''pkg.py'', Title = ''Module pkg'', PageDetail = [],
               PageSearchKey = [''pkg''],
               Sections =
                 [Section ''func'' ''func'' ''Functions'' [] [] True
                    [Section ''run'' ''run'' ''def run()'' [] [''pkg'', ''.'', ''run''] False [],
                     Section ''__str__'' ''__str__'' ''def __str__()'' []
                       [''pkg'', ''.'', ''__str__''] False []]]\<rparr>,
             \<lparr>Path = ''util/io.py3'', Title = ''Module util.io.py3'', PageDetail = [],
               PageSearchKey = [''util.io.py3''],
               Sections =
                 [Section ''func'' ''func'' ''Functions'' [] [] True
                    [Section ''load'' ''load'' ''def load(p)'' []
                       [''util.io.py3'', ''.'', ''load''] False []]]\<rparr>]\<rparr>]\<rparr>"

definition acme_index :: Index where
  "acme_index =
     \<lparr>SchemaVersion = ''0.0.1'', Language = ''python'', NumFiles = 1, NumBytes = 15,
      Libraries =
        [\<lparr>Name = ''TODO'', Repository = ''TODO'', LibraryID = ''TODO'', Version = ''TODO'',
          VersionType = ''TODO'',
          Pages =
            [\<lparr>Path = ''pkg.py'', Title = ''Module pkg'', PageDetail = [],
               PageSearchKey = [''pkg''],
               Sections =
                 [Section ''func'' ''func'' ''Functions'' [] [] True
                    [Section ''run'' ''run'' ''def run()'' [] [''pkg'', ''.'', ''run''] False []]]\<rparr>]\<rparr>]\<rparr>"

definition dup_index :: Index where
  "dup_index =
     \<lparr>SchemaVersion = ''0.0.1'', Language = ''python'', NumFiles = 1, NumBytes = 27,
      Libraries =
        [\<lparr>Name = ''TODO'', Repository = ''TODO'', LibraryID = ''TODO'', Version = ''TODO'',
          VersionType = ''TODO'',
          Pages =
            [\<lparr>Path = ''m.py'', Title = ''Module m'', PageDetail = [],
               PageSearchKey = [''m''],
               Sections =
                 [Section ''func'' ''func'' ''Functions'' [] [] True
                    [Section ''f'' ''f'' ''def f()'' [] [''m'', ''.'', ''f''] False [],
                     Section ''f'' ''f'' ''def f()'' [] [''m'', ''.'', ''f''] False []]]\<rparr>]\<rparr>]\<rparr>"

section \<open>Properties\<close>

subsection \<open>Library functions\<close>

text \<open>
  The scans of \<^verbatim>\<open>strings\<close> and \<^verbatim>\<open>filepath\<close> against the list notions of HOL; a loop over a
  Go map visits every entry once, and can do so in any order; assignment to a map keeps
  its keys apart.
\<close>

lemma Contains_sublist: "Contains s substr \<longleftrightarrow> sublist substr s"
  by (induction s) (auto simp: sublist_Cons_right)

lemma HasSuffix_suffix: "HasSuffix s suf \<longleftrightarrow> suffix suf s"
  unfolding HasSuffix_def suffix_def
  by (metis append_eq_conv_conj append_take_drop_id diff_add_inverse2 length_append le_add2)

lemma HasPrefix_prefix: "HasPrefix s pre \<longleftrightarrow> prefix pre s"
  unfolding HasPrefix_def prefix_def
  by (metis append_eq_conv_conj append_take_drop_id length_append le_add1)

lemma ext_scan_no_dot:
  "CHR ''/'' \<notin> set cs \<Longrightarrow> CHR ''.'' \<notin> set cs \<Longrightarrow> ext_scan (cs @ CHR ''.'' # rest) passed = CHR ''.'' # rev cs @ passed"
  by (induction cs arbitrary: passed) auto

lemma ext_scan_suffix: "suffix (ext_scan cs passed) (rev cs @ passed)"
  by (induction cs arbitrary: passed) (auto simp: suffix_def)

lemma Ext_py: "Ext p = ''.py'' \<longleftrightarrow> suffix ''.py'' p"
proof
  assume "Ext p = ''.py''"
  then have "suffix ''.py'' (rev (rev p) @ [])" unfolding Ext_def using ext_scan_suffix[of "rev p" "[]"] by simp
  then show "suffix ''.py'' p" by simp
next
  assume "suffix ''.py'' p"
  then obtain q where "p = q @ ''.py''" by (auto simp: suffix_def)
  then have "rev p = ''yp'' @ CHR ''.'' # rev q" by simp
  then show "Ext p = ''.py''" unfolding Ext_def using ext_scan_no_dot[of "''yp''" "rev q" "[]"] by simp
qed

lemma Ext_py3: "Ext p = ''.py3'' \<longleftrightarrow> suffix ''.py3'' p"
proof
  assume "Ext p = ''.py3''"
  then have "suffix ''.py3'' (rev (rev p) @ [])" unfolding Ext_def using ext_scan_suffix[of "rev p" "[]"] by simp
  then show "suffix ''.py3'' p" by simp
next
  assume "suffix ''.py3'' p"
  then obtain q where "p = q @ ''.py3''" by (auto simp: suffix_def)
  then have "rev p = ''3yp'' @ CHR ''.'' # rev q" by simp
  then show "Ext p = ''.py3''" unfolding Ext_def using ext_scan_no_dot[of "''3yp''" "rev q" "[]"] by simp
qed

lemma int_add_wrap: "int_add (signed_take_bit 63 a) b = signed_take_bit 63 (a + b)"
  unfolding int_add_def by (metis signed_take_bit_add signed_take_bit_signed_take_bit min.idem)

lemma mset_range_map: "mset (range_map picks xs) = mset xs"
proof (induction picks xs rule: range_map.induct)
  case (3 n ns x xs)
  let ?ys = "x # xs"
  let ?i = "n mod length ?ys"
  have i: "?i < length ?ys" by simp
  have "mset ?ys = mset (take ?i ?ys @ ?ys ! ?i # drop (Suc ?i) ?ys)"
    using id_take_nth_drop[OF i] by simp
  also have "\<dots> = add_mset (?ys ! ?i) (mset (take ?i ?ys @ drop (Suc ?i) ?ys))" by simp
  finally show ?case using 3 by (simp add: Let_def)
qed simp_all

lemma set_range_map: "set (range_map picks xs) = set xs"
  using mset_range_map[of picks xs] by (rule mset_eq_setD)

lemma range_map_any_order: "mset ys = mset xs \<Longrightarrow> \<exists>picks. range_map picks xs = ys"
proof (induction ys arbitrary: xs)
  case Nil
  then have "xs = []" by simp
  then show ?case by (intro exI[of _ "[]"]) simp
next
  case (Cons y ys)
  from Cons.prems have "y \<in> set xs" by (metis list.set_intros(1) mset_eq_setD)
  then obtain i where i: "i < length xs" "xs ! i = y" by (auto simp: in_set_conv_nth)
  let ?rest = "take i xs @ drop (Suc i) xs"
  have "mset xs = add_mset y (mset ?rest)"
    using id_take_nth_drop[OF i(1)] i(2) by (metis mset.simps(2) mset_append union_mset_add_mset_right)
  with Cons.prems have "mset ys = mset ?rest" by simp
  from Cons.IH[OF this] obtain picks where p: "range_map picks ?rest = ys" by blast
  from i obtain x xs' where xs: "xs = x # xs'" by (cases xs) auto
  have "range_map (i # picks) xs = y # ys"
    using i p unfolding xs by (simp add: Let_def)
  then show ?case by blast
qed

lemma map_assign_twice: "map_assign (map_assign m k v) k v' = map_assign m k v'"
  by (induction m) auto

lemma keys_map_assign: "fst ` set (map_assign m k v) = insert k (fst ` set m)"
proof (induction m)
  case Nil then show ?case by simp
next
  case (Cons a m)
  obtain k' v' where a: "a = (k', v')" by (cases a)
  show ?case
  proof (cases "k' = k")
    case True then show ?thesis by (simp add: a)
  next
    case False
    then have "fst ` set (map_assign (a # m) k v) = insert k' (fst ` set (map_assign m k v))"
      by (simp add: a)
    with Cons.IH show ?thesis by (auto simp: a)
  qed
qed

lemma entries_map_assign: "e \<in> set (map_assign m k v) \<Longrightarrow> e = (k, v) \<or> e \<in> set m"
  by (induction m) (auto split: if_splits)

lemma distinct_map_assign: "distinct (map fst m) \<Longrightarrow> distinct (map fst (map_assign m k v))"
proof (induction m)
  case Nil then show ?case by simp
next
  case (Cons a m)
  obtain k' v' where a: "a = (k', v')" by (cases a)
  from Cons have "k' \<notin> fst ` set m" "distinct (map fst (map_assign m k v))" by (auto simp: a)
  then show ?case using Cons.prems by (auto simp: a keys_map_assign)
qed

subsection \<open>Names\<close>

lemma unexported_iff: "unexported n \<longleftrightarrow> prefix ''_'' n \<and> \<not> suffix ''_'' n"
proof (cases n rule: rev_cases)
  case Nil then show ?thesis by (simp add: unexported_def)
next
  case (snoc ys y)
  then show ?thesis by (cases ys) (auto simp: unexported_def prefix_def suffix_def nth_append)
qed

lemma skipped_iff: "skipped p \<longleftrightarrow> sublist ''test_'' p \<or> sublist ''_test'' p \<or> sublist ''tests'' p"
  by (simp add: skipped_def Contains_sublist)

lemma mod_name_eq: "mod_name p = dotted_name p"
proof -
  have r: "ReplaceAll s CHR ''/'' ''.'' = map (\<lambda>c. if c = CHR ''/'' then CHR ''.'' else c) s" for s
    unfolding ReplaceAll_def by (induction s) auto
  show ?thesis
    by (simp add: mod_name_def dotted_name_def r TrimSuffix_def HasSuffix_suffix
          numeral_3_eq_3)
qed

subsection \<open>The walk\<close>

lemma walk_Inr: "walk acc vs = Inr srcs \<longleftrightarrow> (\<forall>v\<in>set vs. snd (snd v) = None) \<and> srcs = acc @ discovered vs"
proof (induction vs arbitrary: acc)
  case Nil
  then show ?case by (auto simp: discovered_def)
next
  case (Cons v vs)
  obtain p is_dir err where v: "v = (p, is_dir, err)" by (cases v)
  show ?case
  proof (cases err)
    case None
    with v Cons.IH show ?thesis
      by (auto simp: discovered_def Let_def Ext_py Ext_py3)
  next
    case (Some e)
    with v show ?thesis by simp
  qed
qed

lemma walk_Inl: "walk acc vs = Inl e \<Longrightarrow> \<exists>p is_dir. (p, is_dir, Some e) \<in> set vs"
proof (induction vs arbitrary: acc)
  case Nil then show ?case by simp
next
  case (Cons v vs)
  obtain p is_dir err where v: "v = (p, is_dir, err)" by (cases v)
  show ?case
  proof (cases err)
    case None
    with v Cons.prems obtain acc' where "walk acc' vs = Inl e"
      by (auto simp: Let_def split: if_splits)
    from Cons.IH[OF this] show ?thesis by auto
  next
    case (Some e')
    with v Cons.prems show ?thesis by auto
  qed
qed

subsection \<open>The loops over the matches\<close>

lemma function_definition_eq:
  "function_definition mn content fbm m =
     (if unexported (func_name content m) then fbm
      else fbm(mn := fbm mn @ [function_section mn content m]))"
  by (simp add: function_definition_def function_section_def func_name_def Let_def)

lemma foldl_function_definition:
  "foldl (function_definition mn content) fbm ms = fbm(mn := fbm mn @ exported_sections mn content ms)"
proof (induction ms arbitrary: fbm)
  case Nil
  then show ?case by (simp add: exported_sections_def)
next
  case (Cons m ms)
  show ?case
    unfolding foldl_Cons Cons.IH
    by (auto simp: function_definition_eq exported_sections_def fun_eq_iff)
qed

lemma module_clause_eq:
  "module_clause p content acc m =
     (mod_name p, map_assign (snd acc) (mod_name p) \<lparr>path = p, docs = module_docs content m\<rparr>)"
  by (simp add: module_clause_def module_docs_def Let_def)

lemma foldl_module_clause_again:
  "foldl (module_clause p content) (mod_name p, map_assign ms (mod_name p) v) matches =
     (mod_name p, map_assign ms (mod_name p)
        (if matches = [] then v else \<lparr>path = p, docs = module_docs content (last matches)\<rparr>))"
  by (induction matches arbitrary: v) (simp_all add: module_clause_eq map_assign_twice)

lemma foldl_module_clause:
  "foldl (module_clause p content) (mn, ms) matches =
     (if matches = [] then (mn, ms)
      else (mod_name p,
            map_assign ms (mod_name p) \<lparr>path = p, docs = module_docs content (last matches)\<rparr>))"
proof (cases matches)
  case Nil then show ?thesis by simp
next
  case (Cons m rest)
  then show ?thesis
    by (simp add: module_clause_eq foldl_module_clause_again)
qed

lemma function_section_sel:
  "ID (function_section m content fm) = func_name content fm"
  "ShortLabel (function_section m content fm) = func_name content fm"
  "SearchKey (function_section m content fm) = [m, ''.'', func_name content fm]"
  "Category (function_section m content fm) = False"
  "Children (function_section m content fm) = []"
  by (simp_all add: function_section_def Let_def)

lemma ID_exported_sections: "map ID (exported_sections m content ms) = exported_names content ms"
  by (induction ms) (simp_all add: exported_sections_def exported_names_def function_section_sel)

subsection \<open>One file\<close>

lemma index_file_skipped: "skipped p \<Longrightarrow> index_file d ctx dir st p = Inr st"
  by (simp add: index_file_def)

lemma index_file_Inr:
  assumes "index_file d ctx dir st p = Inr st'" and "\<not> skipped p"
  shows "\<exists>content tree. parsed d ctx dir p = Some (content, tree)
           \<and> NewQuery d ModuleQuery = None \<and> NewQuery d FunctionQuery = None
           \<and> files st' = int_add (files st) 1
           \<and> bytes st' = int_add (bytes st) (int (length content))
           \<and> mods st' = file_mods p content tree (mods st)
           \<and> functionsByMod st' =
               (functionsByMod st)(current_module p tree :=
                  functionsByMod st (current_module p tree)
                    @ exported_sections (current_module p tree) content (function_matches tree))"
proof -
  from assms obtain content where rd: "ReadFile d dir p = Inr content"
    by (auto simp: index_file_def split: sum.splits)
  from assms rd obtain tree where ps: "ParseCtx d ctx content = Inr tree"
    by (auto simp: index_file_def Let_def split: sum.splits)
  from assms rd ps have q1: "NewQuery d ModuleQuery = None"
    by (auto simp: index_file_def Let_def split: option.splits)
  from assms rd ps q1 have q2: "NewQuery d FunctionQuery = None"
    by (auto simp: index_file_def Let_def split: option.splits prod.splits)
  have st': "st' = \<lparr>files = int_add (files st) 1,
                   bytes = int_add (bytes st) (int (length content)),
                   mods = file_mods p content tree (mods st),
                   functionsByMod =
                     (functionsByMod st)(current_module p tree :=
                        functionsByMod st (current_module p tree)
                          @ exported_sections (current_module p tree) content
                              (function_matches tree))\<rparr>"
    using assms rd ps q1 q2
    by (auto simp: index_file_def Let_def foldl_module_clause foldl_function_definition
          file_mods_def current_module_def split: if_splits)
  have "parsed d ctx dir p = Some (content, tree)"
    by (simp add: parsed_def rd ps)
  with q1 q2 st' show ?thesis by simp
qed

lemma index_file_Inl:
  assumes "index_file d ctx dir st p = Inl err"
  shows "\<not> skipped p \<and>
         ((\<exists>c. ReadFile d dir p = Inl c \<and> err = Wrap c ''ReadFile'')
        \<or> (\<exists>c content. ReadFile d dir p = Inr content \<and> ParseCtx d ctx content = Inl c
              \<and> err = Wrap c ''ParseCtx'')
        \<or> (\<exists>c q. NewQuery d q = Some c \<and> err = Wrap c ''NewQuery''))"
proof -
  from assms have ns: "\<not> skipped p" by (auto simp: index_file_def split: if_splits)
  show ?thesis
  proof (cases "ReadFile d dir p")
    case (Inl c)
    with assms ns show ?thesis by (simp add: index_file_def)
  next
    case rd: (Inr content)
    show ?thesis
    proof (cases "ParseCtx d ctx content")
      case (Inl c)
      with assms ns rd show ?thesis by (simp add: index_file_def)
    next
      case ps: (Inr tree)
      show ?thesis
      proof (cases "NewQuery d ModuleQuery")
        case (Some c)
        with assms ns rd ps have "err = Wrap c ''NewQuery''" by (simp add: index_file_def)
        with Some ns show ?thesis by blast
      next
        case q1: None
        show ?thesis
        proof (cases "NewQuery d FunctionQuery")
          case (Some c)
          with assms ns rd ps q1 have "err = Wrap c ''NewQuery''"
            by (simp add: index_file_def Let_def split: prod.splits)
          with Some ns show ?thesis by blast
        next
          case None
          with assms ns rd ps q1 show ?thesis
            by (simp add: index_file_def Let_def split: prod.splits)
        qed
      qed
    qed
  qed
qed

lemma parsed_Some:
  "parsed d ctx dir p = Some (content, tree) \<longleftrightarrow>
     ReadFile d dir p = Inr content \<and> ParseCtx d ctx content = Inr tree"
  by (auto simp: parsed_def split: sum.splits)

lemma file_functions_mem:
  assumes "s \<in> set (file_functions d ctx dir m p)"
  shows "\<not> skipped p \<and> (\<exists>content tree fm. parsed d ctx dir p = Some (content, tree)
           \<and> current_module p tree = m \<and> fm \<in> set (function_matches tree)
           \<and> \<not> unexported (func_name content fm) \<and> s = function_section m content fm)"
proof -
  from assms have ns: "\<not> skipped p"
    by (auto simp: file_functions_def split: if_splits)
  with assms obtain content tree where p: "parsed d ctx dir p = Some (content, tree)"
    by (cases "parsed d ctx dir p") (auto simp: file_functions_def)
  with assms ns have m: "current_module p tree = m"
    and s: "s \<in> set (exported_sections m content (function_matches tree))"
    by (auto simp: file_functions_def split: if_splits)
  from s obtain fm where "fm \<in> set (function_matches tree)"
    "\<not> unexported (func_name content fm)" "s = function_section m content fm"
    by (auto simp: exported_sections_def)
  with ns p m show ?thesis by blast
qed

lemma file_functions_intro:
  assumes "\<not> skipped p" "parsed d ctx dir p = Some (content, tree)"
    "fm \<in> set (function_matches tree)" "\<not> unexported (func_name content fm)"
  shows "function_section (current_module p tree) content fm
           \<in> set (file_functions d ctx dir (current_module p tree) p)"
  using assms by (simp add: file_functions_def exported_sections_def)

subsection \<open>The loop over the sources\<close>

lemma index_files_all_skipped: "\<forall>p\<in>set ps. skipped p \<Longrightarrow> index_files d ctx dir st ps = Inr st"
  by (induction ps) (simp_all add: index_file_skipped)

lemma index_files_parsed:
  "index_files d ctx dir st ps = Inr st' \<Longrightarrow> p \<in> set ps \<Longrightarrow> \<not> skipped p \<Longrightarrow>
     parsed d ctx dir p \<noteq> None \<and> NewQuery d ModuleQuery = None \<and> NewQuery d FunctionQuery = None"
proof (induction ps arbitrary: st)
  case Nil then show ?case by simp
next
  case (Cons q ps)
  from Cons.prems(1) obtain st1 where s1: "index_file d ctx dir st q = Inr st1"
    and s2: "index_files d ctx dir st1 ps = Inr st'" by (auto split: sum.splits)
  show ?case
  proof (cases "p = q")
    case True
    with s1 Cons.prems(3) index_file_Inr[of d ctx dir st q st1] show ?thesis by auto
  next
    case False
    with Cons.prems have "p \<in> set ps" by simp
    from Cons.IH[OF s2 this Cons.prems(3)] show ?thesis .
  qed
qed

lemma index_files_counts:
  "index_files d ctx dir st ps = Inr st' \<Longrightarrow>
     files st = signed_take_bit 63 a \<Longrightarrow> bytes st = signed_take_bit 63 b \<Longrightarrow>
     files st' = signed_take_bit 63 (a + int (length (filter (\<lambda>p. \<not> skipped p) ps)))
     \<and> bytes st' = signed_take_bit 63 (b + (\<Sum>p\<leftarrow>filter (\<lambda>p. \<not> skipped p) ps. int (file_size d dir p)))"
proof (induction ps arbitrary: st a b)
  case Nil then show ?case by simp
next
  case (Cons q ps)
  from Cons.prems(1) obtain st1 where s1: "index_file d ctx dir st q = Inr st1"
    and s2: "index_files d ctx dir st1 ps = Inr st'" by (auto split: sum.splits)
  show ?case
  proof (cases "skipped q")
    case True
    with s1 have "st1 = st" by (simp add: index_file_skipped)
    with Cons.IH[OF s2, of a b] Cons.prems True show ?thesis by simp
  next
    case False
    from index_file_Inr[OF s1 False] obtain content tree where
      p: "parsed d ctx dir q = Some (content, tree)"
      and f: "files st1 = int_add (files st) 1"
      and b: "bytes st1 = int_add (bytes st) (int (length content))" by blast
    from p have sz: "file_size d dir q = length content"
      by (auto simp: parsed_def file_size_def split: sum.splits)
    have f1: "files st1 = signed_take_bit 63 (a + 1)"
      using f Cons.prems(2) by (simp add: int_add_wrap)
    have b1: "bytes st1 = signed_take_bit 63 (b + int (length content))"
      using b Cons.prems(3) by (simp add: int_add_wrap)
    from Cons.IH[OF s2 f1 b1] False sz show ?thesis by (simp add: algebra_simps)
  qed
qed

lemma index_files_functions:
  "index_files d ctx dir st ps = Inr st' \<Longrightarrow>
     functionsByMod st' m = functionsByMod st m @ concat (map (file_functions d ctx dir m) ps)"
proof (induction ps arbitrary: st)
  case Nil then show ?case by simp
next
  case (Cons q ps)
  from Cons.prems(1) obtain st1 where s1: "index_file d ctx dir st q = Inr st1"
    and s2: "index_files d ctx dir st1 ps = Inr st'" by (auto split: sum.splits)
  have "functionsByMod st1 m = functionsByMod st m @ file_functions d ctx dir m q"
  proof (cases "skipped q")
    case True
    with s1 show ?thesis by (simp add: index_file_skipped file_functions_def)
  next
    case False
    from index_file_Inr[OF s1 False] False show ?thesis
      by (auto simp: file_functions_def)
  qed
  with Cons.IH[OF s2] show ?case by simp
qed

lemma index_files_mods:
  "index_files d ctx dir st ps = Inr st' \<Longrightarrow>
     fst ` set (mods st') = fst ` set (mods st) \<union> mod_name ` {p \<in> set ps. has_module d ctx dir p}
     \<and> (distinct (map fst (mods st)) \<longrightarrow> distinct (map fst (mods st')))
     \<and> (\<forall>e \<in> set (mods st'). e \<in> set (mods st)
           \<or> (fst e = mod_name (path (snd e)) \<and> path (snd e) \<in> set ps
               \<and> has_module d ctx dir (path (snd e))))"
proof (induction ps arbitrary: st)
  case Nil then show ?case by simp
next
  case (Cons q ps)
  from Cons.prems(1) obtain st1 where s1: "index_file d ctx dir st q = Inr st1"
    and s2: "index_files d ctx dir st1 ps = Inr st'" by (auto split: sum.splits)
  have step: "fst ` set (mods st1) = fst ` set (mods st) \<union> mod_name ` {p \<in> {q}. has_module d ctx dir p}
     \<and> (distinct (map fst (mods st)) \<longrightarrow> distinct (map fst (mods st1)))
     \<and> (\<forall>e \<in> set (mods st1). e \<in> set (mods st)
           \<or> (fst e = mod_name (path (snd e)) \<and> path (snd e) = q \<and> has_module d ctx dir q))"
  proof (cases "skipped q")
    case True
    with s1 show ?thesis by (auto simp: index_file_skipped has_module_def)
  next
    case False
    from index_file_Inr[OF s1 False] obtain content tree where
      p: "parsed d ctx dir q = Some (content, tree)"
      and m: "mods st1 = file_mods q content tree (mods st)" by blast
    show ?thesis
    proof (cases "module_matches tree = []")
      case True
      with p m False show ?thesis by (auto simp: file_mods_def has_module_def)
    next
      case nonempty: False
      with p False have hm: "has_module d ctx dir q" by (simp add: has_module_def)
      from nonempty m have m': "mods st1 = map_assign (mods st) (mod_name q)
             \<lparr>path = q, docs = module_docs content (last (module_matches tree))\<rparr>"
        by (simp add: file_mods_def)
      have "e \<in> set (mods st) \<or> (fst e = mod_name (path (snd e)) \<and> path (snd e) = q)"
        if "e \<in> set (mods st1)" for e
        using entries_map_assign[OF that[unfolded m']] by auto
      with hm show ?thesis
        by (auto simp: m' keys_map_assign distinct_map_assign)
    qed
  qed
  from Cons.IH[OF s2] step show ?case by (auto simp: image_iff) 
qed

lemma index_files_Inl:
  assumes "index_files d ctx dir st ps = Inl err"
  shows "\<exists>p\<in>set ps. \<not> skipped p \<and>
         ((\<exists>c. ReadFile d dir p = Inl c \<and> err = Wrap c ''ReadFile'')
        \<or> (\<exists>c content. ReadFile d dir p = Inr content \<and> ParseCtx d ctx content = Inl c
              \<and> err = Wrap c ''ParseCtx'')
        \<or> (\<exists>c q. NewQuery d q = Some c \<and> err = Wrap c ''NewQuery''))"
  using assms
proof (induction ps arbitrary: st)
  case Nil then show ?case by simp
next
  case (Cons q ps)
  show ?case
  proof (cases "index_file d ctx dir st q")
    case (Inl e)
    with Cons.prems have "e = err" by simp
    with index_file_Inl[OF Inl] show ?thesis by auto
  next
    case (Inr st1)
    with Cons.prems have "index_files d ctx dir st1 ps = Inl err" by simp
    from Cons.IH[OF this] show ?thesis by auto
  qed
qed

lemma index_files_append:
  "index_files d ctx dir st (ps @ qs) =
     (case index_files d ctx dir st ps of
        Inl err \<Rightarrow> Inl err
      | Inr st' \<Rightarrow> index_files d ctx dir st' qs)"
  by (induction ps arbitrary: st) (simp_all split: sum.splits)

lemma index_file_parsed_ok:
  assumes "parsed d ctx dir p \<noteq> None" "NewQuery d ModuleQuery = None"
    "NewQuery d FunctionQuery = None"
  shows "\<exists>st'. index_file d ctx dir st p = Inr st'"
proof -
  from assms(1) obtain content tree where "ReadFile d dir p = Inr content"
    "ParseCtx d ctx content = Inr tree" by (auto simp: parsed_Some)
  with assms(2,3) show ?thesis
    by (simp add: index_file_def Let_def split: prod.splits)
qed

lemma index_files_parsed_ok:
  assumes "\<forall>p\<in>set ps. \<not> skipped p \<longrightarrow> parsed d ctx dir p \<noteq> None"
    and "NewQuery d ModuleQuery = None" "NewQuery d FunctionQuery = None"
  shows "\<exists>st'. index_files d ctx dir st ps = Inr st'"
  using assms(1)
proof (induction ps arbitrary: st)
  case Nil then show ?case by simp
next
  case (Cons q ps)
  have "\<exists>st1. index_file d ctx dir st q = Inr st1"
  proof (cases "skipped q")
    case True then show ?thesis by (simp add: index_file_skipped)
  next
    case False
    with Cons.prems have "parsed d ctx dir q \<noteq> None" by simp
    from index_file_parsed_ok[OF this assms(2,3)] show ?thesis .
  qed
  then obtain st1 where "index_file d ctx dir st q = Inr st1" ..
  moreover from Cons have "\<exists>st'. index_files d ctx dir st1 ps = Inr st'" by simp
  ultimately show ?case by simp
qed

lemma index_file_same_parses:
  assumes "\<not> skipped p \<longrightarrow>
            (\<forall>content. ReadFile d dir p = Inr content \<longrightarrow>
               ParseCtx d ctx' content = ParseCtx d ctx content)"
  shows "index_file d ctx' dir st p = index_file d ctx dir st p"
proof (cases "skipped p")
  case True then show ?thesis by (simp add: index_file_skipped)
next
  case False
  show ?thesis
  proof (cases "ReadFile d dir p")
    case (Inl c)
    with False show ?thesis by (simp add: index_file_def)
  next
    case (Inr content)
    with False assms have "ParseCtx d ctx' content = ParseCtx d ctx content" by simp
    with False Inr show ?thesis by (simp add: index_file_def)
  qed
qed

lemma index_files_same_parses:
  assumes "\<forall>p\<in>set ps. \<not> skipped p \<longrightarrow>
            (\<forall>content. ReadFile d dir p = Inr content \<longrightarrow>
               ParseCtx d ctx' content = ParseCtx d ctx content)"
  shows "index_files d ctx' dir st ps = index_files d ctx dir st ps"
  using assms
proof (induction ps arbitrary: st)
  case Nil then show ?case by simp
next
  case (Cons q ps)
  from Cons.prems have "index_file d ctx' dir st q = index_file d ctx dir st q"
    by (intro index_file_same_parses) simp
  moreover from Cons have "index_files d ctx' dir st1 ps = index_files d ctx dir st1 ps" for st1
    by simp
  ultimately show ?case by (simp split: sum.splits)
qed

subsection \<open>The result of IndexDir\<close>

lemma IndexDir_Some:
  assumes "IndexDir d picks ctx dir = (Some idx, None)"
  shows "\<exists>st. (\<forall>v\<in>set (WalkDir d dir). snd (snd v) = None)
          \<and> index_files d ctx dir initial (discovered (WalkDir d dir)) = Inr st
          \<and> idx = \<lparr>SchemaVersion = LatestVersion d, Language = LanguagePython d,
                    NumFiles = files st, NumBytes = bytes st,
                    Libraries =
                      [\<lparr>Name = ''TODO'', Repository = ''TODO'', LibraryID = ''TODO'',
                        Version = ''TODO'', VersionType = ''TODO'',
                        Pages = map (module_page (functionsByMod st))
                                  (range_map picks (mods st))\<rparr>]\<rparr>"
proof -
  from assms obtain sources where w: "walk [] (WalkDir d dir) = Inr sources"
    by (auto simp: IndexDir_def split: sum.splits)
  then have ok: "\<forall>v\<in>set (WalkDir d dir). snd (snd v) = None"
    and src: "sources = discovered (WalkDir d dir)"
    by (simp_all add: walk_Inr)
  from assms w obtain st where st: "index_files d ctx dir initial sources = Inr st"
    by (auto simp: IndexDir_def split: sum.splits)
  from assms w st have "idx = \<lparr>SchemaVersion = LatestVersion d, Language = LanguagePython d,
                    NumFiles = files st, NumBytes = bytes st,
                    Libraries =
                      [\<lparr>Name = ''TODO'', Repository = ''TODO'', LibraryID = ''TODO'',
                        Version = ''TODO'', VersionType = ''TODO'',
                        Pages = map (module_page (functionsByMod st))
                                  (range_map picks (mods st))\<rparr>]\<rparr>"
    by (simp add: IndexDir_def Let_def)
  with ok st src show ?thesis by blast
qed

lemma IndexDir_page:
  assumes "IndexDir d picks ctx dir = (Some idx, None)" and "pg \<in> set (index_pages idx)"
  shows "Path pg \<in> set (discovered (WalkDir d dir)) \<and> has_module d ctx dir (Path pg)
         \<and> PageSearchKey pg = [mod_name (Path pg)]
         \<and> Sections pg = [Section ''func'' ''func'' ''Functions'' '''' [] True
                           (module_functions d ctx dir (mod_name (Path pg)))]"
proof -
  from IndexDir_Some[OF assms(1)] obtain st where
    st: "index_files d ctx dir initial (discovered (WalkDir d dir)) = Inr st"
    and pages: "index_pages idx = map (module_page (functionsByMod st)) (range_map picks (mods st))"
    by (auto simp: index_pages_def)
  from assms(2) pages obtain e where e: "e \<in> set (mods st)"
    and pg: "pg = module_page (functionsByMod st) e"
    by (auto simp: set_range_map)
  from index_files_mods[OF st] e have
    k: "fst e = mod_name (path (snd e))" and src: "path (snd e) \<in> set (discovered (WalkDir d dir))"
    and hm: "has_module d ctx dir (path (snd e))"
    by (auto simp: initial_def)
  have f: "functionsByMod st m = module_functions d ctx dir m" for m
    using index_files_functions[OF st, of m] by (simp add: initial_def module_functions_def)
  show ?thesis using k src hm by (simp add: pg module_page_def Let_def f)
qed

lemma IndexDir_has_page:
  assumes "IndexDir d picks ctx dir = (Some idx, None)"
    and "p \<in> set (discovered (WalkDir d dir))" and "has_module d ctx dir p"
  shows "\<exists>pg \<in> set (index_pages idx). PageSearchKey pg = [mod_name p]"
proof -
  from IndexDir_Some[OF assms(1)] obtain st where
    st: "index_files d ctx dir initial (discovered (WalkDir d dir)) = Inr st"
    and pages: "index_pages idx = map (module_page (functionsByMod st)) (range_map picks (mods st))"
    by (auto simp: index_pages_def)
  from index_files_mods[OF st] assms(2,3) have "mod_name p \<in> fst ` set (mods st)"
    by (auto simp: initial_def)
  then obtain e where e: "e \<in> set (mods st)" "fst e = mod_name p" by auto
  then have "module_page (functionsByMod st) e \<in> set (index_pages idx)"
    by (simp add: pages set_range_map)
  moreover have "PageSearchKey (module_page (functionsByMod st) e) = [mod_name p]"
    using e by (simp add: module_page_def Let_def)
  ultimately show ?thesis by blast
qed

lemma IndexDir_counts:
  assumes "IndexDir d picks ctx dir = (Some idx, None)"
  shows "NumFiles idx = signed_take_bit 63 (int (length (filter (\<lambda>p. \<not> skipped p) (discovered (WalkDir d dir)))))
       \<and> NumBytes idx = signed_take_bit 63 (\<Sum>p\<leftarrow>filter (\<lambda>p. \<not> skipped p) (discovered (WalkDir d dir)). int (file_size d dir p))"
proof -
  from IndexDir_Some[OF assms(1)] obtain st where
    st: "index_files d ctx dir initial (discovered (WalkDir d dir)) = Inr st"
    and n: "NumFiles idx = files st" "NumBytes idx = bytes st"
    by auto
  from index_files_counts[OF st, of 0 0] n show ?thesis by (simp add: initial_def)
qed

lemma IndexDir_shape:
  "(\<exists>idx. IndexDir d picks ctx dir = (Some idx, None))
     \<noteq> (\<exists>err. IndexDir d picks ctx dir = (None, Some err))"
  by (auto simp: IndexDir_def Let_def split: sum.splits)

lemma IndexDir_None:
  assumes "IndexDir d picks ctx dir = (None, Some err)"
  shows "(\<exists>c p is_dir. (p, is_dir, Some c) \<in> set (WalkDir d dir) \<and> err = Wrap c ''WalkDir'')
       \<or> (\<exists>p\<in>set (discovered (WalkDir d dir)). \<not> skipped p \<and>
           ((\<exists>c. ReadFile d dir p = Inl c \<and> err = Wrap c ''ReadFile'')
          \<or> (\<exists>c content. ReadFile d dir p = Inr content \<and> ParseCtx d ctx content = Inl c
                \<and> err = Wrap c ''ParseCtx'')
          \<or> (\<exists>c q. NewQuery d q = Some c \<and> err = Wrap c ''NewQuery'')))"
proof (cases "walk [] (WalkDir d dir)")
  case (Inl c)
  with assms have "err = Wrap c ''WalkDir''" by (simp add: IndexDir_def)
  with walk_Inl[OF Inl] show ?thesis by blast
next
  case (Inr sources)
  then have src: "sources = discovered (WalkDir d dir)" by (simp add: walk_Inr)
  from assms Inr have "index_files d ctx dir initial sources = Inl err"
    by (auto simp: IndexDir_def Let_def split: sum.splits)
  from index_files_Inl[OF this] src show ?thesis by blast
qed

lemma ID_module_functions: "map ID (module_functions d ctx dir m) = module_function_names d ctx dir m"
proof -
  have "map ID (file_functions d ctx dir m p) =
          (if skipped p then []
           else case parsed d ctx dir p of
             None \<Rightarrow> []
           | Some (content, tree) \<Rightarrow>
               if current_module p tree = m
               then exported_names content (function_matches tree) else [])" for p
    by (simp add: file_functions_def ID_exported_sections split: option.splits)
  then show ?thesis
    by (simp add: module_functions_def module_function_names_def map_concat comp_def)
qed

lemma module_functions_leaf:
  assumes "f \<in> set (module_functions d ctx dir m)"
  shows "Category f = False \<and> Children f = [] \<and> SearchKey f = [m, ''.'', ID f]
         \<and> ShortLabel f = ID f \<and> \<not> unexported (ID f) \<and> depth f = 1 \<and> subsections f = [f]"
proof -
  from assms obtain p where "f \<in> set (file_functions d ctx dir m p)"
    by (auto simp: module_functions_def)
  from file_functions_mem[OF this] obtain content fm where
    ne: "\<not> unexported (func_name content fm)" and f: "f = function_section m content fm"
    by blast
  then show ?thesis by (simp add: function_section_def Let_def)
qed

lemma depth_category: "depth (Section i sl l dt k c fs) \<le> 2" if "\<forall>f\<in>set fs. depth f = 1"
proof -
  have "foldr max (map depth fs) 0 \<le> 1" using that by (induction fs) auto
  then show ?thesis by simp
qed

subsection \<open>The examples\<close>

lemma disk_proj: "IndexDir disk [] (Context None) ''proj'' = (Some proj_index, None)"
  by code_simp

lemma disk_proj_files:
  "''pkg.py'' \<in> set (discovered (WalkDir disk ''proj''))"
  "\<not> skipped ''pkg.py''"
  "ReadFile disk ''proj'' ''pkg.py'' = Inr pkg_src"
  "ParseCtx disk (Context None) pkg_src = Inr pkg_tree"
  "module_matches pkg_tree \<noteq> []"
  "map (func_name pkg_src) (function_matches pkg_tree) = [''run'', ''_hid'', ''__str__'']"
  by code_simp+

lemma disk_acme_file:
  "''pkg.py'' \<in> set (discovered (WalkDir disk ''acme''))"
  "\<not> skipped ''pkg.py''"
  "ReadFile disk ''acme'' ''pkg.py'' = Inr run_src"
  "ParseCtx disk (Context None) run_src = Inr run_tree"
  "module_matches run_tree \<noteq> []"
  "function_matches run_tree = [[capture ''func_name'' 4 7, capture ''func_params'' 7 9]]"
  "func_name run_src [capture ''func_name'' 4 7, capture ''func_params'' 7 9] = ''run''"
  "\<not> unexported ''run''"
  "dotted_name ''pkg.py'' = ''pkg''"
  by code_simp+

lemma disk_acme: "IndexDir disk [] (Context None) ''acme'' = (Some acme_index, None)"
  by code_simp

lemma disk_dup: "IndexDir disk [] (Context None) ''dup'' = (Some dup_index, None)"
  by code_simp

lemma length_concat_replicate: "length (concat (replicate n xs)) = n * length xs"
  by (induction n) simp_all

lemma length_big_src: "length big_src = 1200000"
  unfolding big_src_def length_concat_replicate by simp

lemma disk_big_file:
  "walk [] (WalkDir disk ''big'') = Inr [''big.py'']"
  "discovered (WalkDir disk ''big'') = [''big.py'']"
  "\<not> skipped ''big.py''"
  "ReadFile disk ''big'' ''big.py'' = Inr big_src"
  "ParseCtx disk (Context (Some Canceled)) big_src = Inl Canceled"
proof -
  have w: "WalkDir disk ''big'' = [(''.'', True, None), (''big.py'', False, None)]"
    by (simp add: disk_def)
  show "walk [] (WalkDir disk ''big'') = Inr [''big.py'']"
    unfolding w by code_simp
  show "discovered (WalkDir disk ''big'') = [''big.py'']"
    unfolding w by code_simp
  show "\<not> skipped ''big.py''" by code_simp
  show "ReadFile disk ''big'' ''big.py'' = Inr big_src" by (simp add: disk_def)
  show "ParseCtx disk (Context (Some Canceled)) big_src = Inl Canceled"
    by (simp add: disk_def length_big_src)
qed

lemma disk_big_cancelled:
  "IndexDir disk picks (Context (Some Canceled)) ''big'' = (None, Some (Wrap Canceled ''ParseCtx''))"
proof -
  have "index_file disk (Context (Some Canceled)) ''big'' initial ''big.py''
          = Inl (Wrap Canceled ''ParseCtx'')"
    by (simp add: index_file_def disk_big_file)
  then show ?thesis by (simp add: IndexDir_def disk_big_file)
qed

lemma disk_run_cancelled:
  "ParseCtx disk (Context (Some Canceled)) run_src = ParseCtx disk (Context None) run_src"
  by (simp add: disk_def run_src_def)

section \<open>The claims\<close>

text \<open>
  Claim C1. In an Index that \<^verbatim>\<open>IndexDir\<close> returns, no Section has an identifier that starts
  with an underscore and does not end with one; and every function definition found in a
  file that is not skipped and whose module query matched (so that the module has a Page),
  with a name that starts and ends with an underscore, is a Section of the Page of its
  module.
\<close>

theorem visibility_filter:
  assumes "IndexDir d picks ctx dir = (Some idx, None)"
  shows "(\<forall>s\<in>set (index_sections idx). \<not> (prefix ''_'' (ID s) \<and> \<not> suffix ''_'' (ID s)))
       \<and> (\<forall>p\<in>set (discovered (WalkDir d dir)). \<forall>content tree. \<forall>fm\<in>set (function_matches tree).
            \<not> skipped p \<and> ReadFile d dir p = Inr content \<and> ParseCtx d ctx content = Inr tree
            \<and> module_matches tree \<noteq> []
            \<and> prefix ''_'' (func_name content fm) \<and> suffix ''_'' (func_name content fm)
            \<longrightarrow> (\<exists>pg\<in>set (index_pages idx). PageSearchKey pg = [mod_name p]
                   \<and> (\<exists>cat\<in>set (Sections pg). \<exists>s\<in>set (Children cat).
                        ID s = func_name content fm)))"
proof -
  have excl: "\<not> unexported (ID s)" if "s \<in> set (index_sections idx)" for s
  proof -
    from that obtain pg top where pg: "pg \<in> set (index_pages idx)"
      and top: "top \<in> set (Sections pg)" and s: "s \<in> set (subsections top)"
      by (auto simp: index_sections_def)
    let ?m = "mod_name (Path pg)"
    from IndexDir_page[OF assms pg] top
    have t: "top = Section ''func'' ''func'' ''Functions'' '''' [] True (module_functions d ctx dir ?m)"
      by simp
    from s t consider "s = top" | f where "f \<in> set (module_functions d ctx dir ?m)" "s \<in> set (subsections f)"
      by auto
    then show ?thesis
    proof cases
      case 1
      with t show ?thesis by (simp add: unexported_def)
    next
      case 2
      from 2(1) obtain p where "f \<in> set (file_functions d ctx dir ?m p)"
        by (auto simp: module_functions_def)
      from file_functions_mem[OF this] obtain content fm where
        ne: "\<not> unexported (func_name content fm)" and f: "f = function_section ?m content fm"
        by blast
      from f have "subsections f = [f]"
        by (simp add: function_section_def Let_def)
      with 2(2) have "s = f" by simp
      with ne f show ?thesis by (simp add: function_section_sel)
    qed
  qed
  have keep: "\<exists>pg\<in>set (index_pages idx). PageSearchKey pg = [mod_name p]
                   \<and> (\<exists>cat\<in>set (Sections pg). \<exists>s\<in>set (Children cat). ID s = func_name content fm)"
    if p: "p \<in> set (discovered (WalkDir d dir))" and fm: "fm \<in> set (function_matches tree)"
      and ns: "\<not> skipped p" and rd: "ReadFile d dir p = Inr content"
      and ps: "ParseCtx d ctx content = Inr tree" and mm: "module_matches tree \<noteq> []"
      and nm: "prefix ''_'' (func_name content fm)" "suffix ''_'' (func_name content fm)"
    for p content tree fm
  proof -
    from rd ps have pr: "parsed d ctx dir p = Some (content, tree)" by (simp add: parsed_Some)
    with ns mm have hm: "has_module d ctx dir p" by (simp add: has_module_def)
    from IndexDir_has_page[OF assms p hm] obtain pg where pg: "pg \<in> set (index_pages idx)"
      and key: "PageSearchKey pg = [mod_name p]" by blast
    from IndexDir_page[OF assms pg] key have
      sec: "Sections pg = [Section ''func'' ''func'' ''Functions'' '''' [] True
                           (module_functions d ctx dir (mod_name p))]"
      by simp
    from nm have "\<not> unexported (func_name content fm)" by (simp add: unexported_iff)
    from file_functions_intro[OF ns pr fm this] mm
    have "function_section (mod_name p) content fm \<in> set (file_functions d ctx dir (mod_name p) p)"
      by (simp add: current_module_def)
    with p have "function_section (mod_name p) content fm \<in> set (module_functions d ctx dir (mod_name p))"
      by (auto simp: module_functions_def)
    with pg key sec show ?thesis
      by (intro bexI[of _ pg] conjI) (auto simp: function_section_sel intro!: bexI[of _ "function_section (mod_name p) content fm"])
  qed
  from excl keep show ?thesis by (simp add: unexported_iff)
qed

theorem visibility_filter_witness:
  "IndexDir disk [] (Context None) ''proj'' = (Some proj_index, None)
   \<and> ''pkg.py'' \<in> set (discovered (WalkDir disk ''proj'')) \<and> \<not> skipped ''pkg.py''
   \<and> ReadFile disk ''proj'' ''pkg.py'' = Inr pkg_src
   \<and> ParseCtx disk (Context None) pkg_src = Inr pkg_tree
   \<and> module_matches pkg_tree \<noteq> []
   \<and> map (func_name pkg_src) (function_matches pkg_tree) = [''run'', ''_hid'', ''__str__'']
   \<and> ''_hid'' \<notin> ID ` set (index_sections proj_index)
   \<and> (\<exists>pg\<in>set (index_pages proj_index). PageSearchKey pg = [''pkg'']
        \<and> (\<exists>cat\<in>set (Sections pg). \<exists>s\<in>set (Children cat). ID s = ''__str__''))"
proof -
  note f = visibility_filter[OF disk_proj]
  let ?fm = "[capture ''func_name'' 37 44, capture ''func_params'' 44 46]"
  have fm: "?fm \<in> set (function_matches pkg_tree)" by (simp add: pkg_tree_def)
  have nm: "func_name pkg_src ?fm = ''__str__''" by code_simp
  have mn: "mod_name ''pkg.py'' = ''pkg''" by code_simp
  have hid: "prefix ''_'' ''_hid'' \<and> \<not> suffix ''_'' ''_hid''" by code_simp
  have dunder: "prefix ''_'' ''__str__'' \<and> suffix ''_'' ''__str__''" by code_simp
  from f have "\<forall>s\<in>set (index_sections proj_index).
                 \<not> (prefix ''_'' (ID s) \<and> \<not> suffix ''_'' (ID s))"
    by (rule conjunct1)
  with hid have a: "''_hid'' \<notin> ID ` set (index_sections proj_index)" by force
  from f have "\<forall>p\<in>set (discovered (WalkDir disk ''proj'')). \<forall>content tree. \<forall>fm\<in>set (function_matches tree).
            \<not> skipped p \<and> ReadFile disk ''proj'' p = Inr content \<and> ParseCtx disk (Context None) content = Inr tree
            \<and> module_matches tree \<noteq> []
            \<and> prefix ''_'' (func_name content fm) \<and> suffix ''_'' (func_name content fm)
            \<longrightarrow> (\<exists>pg\<in>set (index_pages proj_index). PageSearchKey pg = [mod_name p]
                   \<and> (\<exists>cat\<in>set (Sections pg). \<exists>s\<in>set (Children cat).
                        ID s = func_name content fm))" by (rule conjunct2)
  from this[rule_format, OF disk_proj_files(1) fm, of pkg_src] disk_proj_files dunder nm mn
  have b: "\<exists>pg\<in>set (index_pages proj_index). PageSearchKey pg = [''pkg'']
        \<and> (\<exists>cat\<in>set (Sections pg). \<exists>s\<in>set (Children cat). ID s = ''__str__'')"
    by simp
  from a b disk_proj disk_proj_files show ?thesis by simp
qed

text \<open>
  Claim C2 as stated fails. For the directory \<^verbatim>\<open>acme\<close>, whose only file \<^verbatim>\<open>pkg.py\<close> defines
  \<^verbatim>\<open>run\<close>, the SearchKeys along the path from the Page to the function Section
  concatenate to \<^verbatim>\<open>pkg pkg . run\<close>: the module token comes twice, and the result is not
  the canonical path \<^verbatim>\<open>pkg . run\<close>.
\<close>

theorem key_path_counterexample:
  "map_option function_key_paths (fst (IndexDir disk [] (Context None) ''acme''))
     = Some [[''pkg'', ''pkg'', ''.'', ''run'']]
   \<and> [''pkg'', ''pkg'', ''.'', ''run''] \<noteq> canonical_path ''pkg'' ''run''"
  by code_simp

text \<open>
  Claim C2, amended. In an Index that \<^verbatim>\<open>IndexDir\<close> returns, the SearchKey of a function
  Section is by itself the canonical fully-qualified path \<open>[m, ''.'', f]\<close> of the function,
  where \<open>[m]\<close> is the SearchKey of its Page; the SearchKey of the category node between
  them is empty; so the concatenation along the path is the canonical path with the module
  token in front of it once more.
\<close>

theorem section_key_is_full_path:
  assumes "IndexDir d picks ctx dir = (Some idx, None)"
  shows "\<forall>pg\<in>set (index_pages idx). \<forall>cat\<in>set (Sections pg). \<forall>s\<in>set (Children cat).
           \<exists>m. PageSearchKey pg = [m] \<and> SearchKey cat = []
              \<and> SearchKey s = canonical_path m (ID s)
              \<and> key_path pg [cat, s] = m # canonical_path m (ID s)"
proof (intro ballI)
  fix pg cat s
  assume pg: "pg \<in> set (index_pages idx)" and cat: "cat \<in> set (Sections pg)"
    and s: "s \<in> set (Children cat)"
  let ?m = "mod_name (Path pg)"
  from IndexDir_page[OF assms pg] have key: "PageSearchKey pg = [?m]"
    and sec: "Sections pg = [Section ''func'' ''func'' ''Functions'' '''' [] True
                              (module_functions d ctx dir ?m)]" by simp_all
  from cat sec have c: "cat = Section ''func'' ''func'' ''Functions'' '''' [] True
                              (module_functions d ctx dir ?m)" by simp
  with s have "s \<in> set (module_functions d ctx dir ?m)" by simp
  from module_functions_leaf[OF this] have "SearchKey s = [?m, ''.'', ID s]" by simp
  with key c show "\<exists>m. PageSearchKey pg = [m] \<and> SearchKey cat = []
              \<and> SearchKey s = canonical_path m (ID s)
              \<and> key_path pg [cat, s] = m # canonical_path m (ID s)"
    by (simp add: canonical_path_def key_path_def)
qed

theorem section_key_is_full_path_witness:
  "IndexDir disk [] (Context None) ''proj'' = (Some proj_index, None)
   \<and> function_key_paths proj_index =
       [[''pkg'', ''pkg'', ''.'', ''run''], [''pkg'', ''pkg'', ''.'', ''__str__''],
        [''util.io.py3'', ''util.io.py3'', ''.'', ''load'']]
   \<and> list_all (\<lambda>pg. \<forall>cat\<in>set (Sections pg). \<forall>s\<in>set (Children cat).
           \<exists>m. PageSearchKey pg = [m] \<and> SearchKey cat = []
              \<and> SearchKey s = canonical_path m (ID s)
              \<and> key_path pg [cat, s] = m # canonical_path m (ID s)) (index_pages proj_index)"
proof -
  have "function_key_paths proj_index =
       [[''pkg'', ''pkg'', ''.'', ''run''], [''pkg'', ''pkg'', ''.'', ''__str__''],
        [''util.io.py3'', ''util.io.py3'', ''.'', ''load'']]" by code_simp
  with section_key_is_full_path[OF disk_proj] disk_proj show ?thesis
    by (simp add: list_all_iff)
qed

text \<open>
  Claim C3 as stated fails. The Pages are built in a loop over the Go map \<^verbatim>\<open>mods\<close>, and
  the order of that loop is the runtime's: over the directory \<^verbatim>\<open>proj\<close> with its two
  modules, a run whose loop starts at the first entry and a run whose loop starts at the
  second return Indexes with the two Pages in opposite orders.
\<close>

theorem page_order_counterexample:
  "map_option (map Path \<circ> index_pages) (fst (IndexDir disk [0] (Context None) ''proj''))
     = Some [''pkg.py'', ''util/io.py3'']
   \<and> map_option (map Path \<circ> index_pages) (fst (IndexDir disk [1] (Context None) ''proj''))
     = Some [''util/io.py3'', ''pkg.py'']
   \<and> IndexDir disk [0] (Context None) ''proj'' \<noteq> IndexDir disk [1] (Context None) ''proj''"
  by code_simp

text \<open>
  Claim C3, amended. For fixed directory contents (and a fixed parser and context), any
  two runs of \<^verbatim>\<open>IndexDir\<close> return the same error, or Indexes that are equal up to the
  order of the Pages of the one Library: the same header, the same counts, and the same
  Pages, each with its Sections in the same order. The order of the Pages is that of
  Go's loop over a map and can differ between runs.
\<close>

theorem deterministic_up_to_page_order:
  "snd (IndexDir d picks ctx dir) = snd (IndexDir d picks' ctx dir)
   \<and> map_option up_to_page_order (fst (IndexDir d picks ctx dir))
       = map_option up_to_page_order (fst (IndexDir d picks' ctx dir))"
proof (cases "walk [] (WalkDir d dir)")
  case (Inl err)
  then show ?thesis by (simp add: IndexDir_def)
next
  case (Inr sources)
  show ?thesis
  proof (cases "index_files d ctx dir initial sources")
    case (Inl err)
    with Inr show ?thesis by (simp add: IndexDir_def)
  next
    case st: (Inr st)
    have "mset (map (module_page (functionsByMod st)) (range_map picks (mods st)))
            = mset (map (module_page (functionsByMod st)) (range_map picks' (mods st)))"
      by (simp add: mset_range_map)
    with Inr st show ?thesis
      by (simp add: IndexDir_def Let_def up_to_page_order_def)
  qed
qed

theorem deterministic_up_to_page_order_witness:
  "snd (IndexDir disk [0] (Context None) ''proj'') = snd (IndexDir disk [1] (Context None) ''proj'')
   \<and> map_option up_to_page_order (fst (IndexDir disk [0] (Context None) ''proj''))
       = map_option up_to_page_order (fst (IndexDir disk [1] (Context None) ''proj''))
   \<and> fst (IndexDir disk [0] (Context None) ''proj'') \<noteq> None"
proof -
  have "fst (IndexDir disk [0] (Context None) ''proj'') \<noteq> None" by code_simp
  with deterministic_up_to_page_order[of disk "[0]" "Context None" "''proj''" "[1]"]
  show ?thesis by simp
qed

text \<open>
  Claim C4 as stated fails. For the directory \<^verbatim>\<open>dup\<close>, whose only file \<^verbatim>\<open>m.py\<close> defines
  \<^verbatim>\<open>f\<close> twice (which Python allows), the category node of the Page has two children with
  the ID \<^verbatim>\<open>f\<close>.
\<close>

theorem sibling_ids_counterexample:
  "map_option sibling_ids (fst (IndexDir disk [] (Context None) ''dup''))
     = Some [[''func''], [''f'', ''f''], [], []]
   \<and> \<not> list_all distinct [[''func''], [''f'', ''f''], [], []]"
  by code_simp

text \<open>
  Claim C4, amended. In an Index that \<^verbatim>\<open>IndexDir\<close> returns, the top-level Sections of a
  Page have different IDs (there is one) and so have the children of a function Section
  (there are none). The IDs of the children of the category node are the names of the
  exported function definitions found in the files of that module name, one per
  definition and in the order in which they were found; they are different exactly when
  those names are.
\<close>

theorem sibling_ids_are_function_names:
  assumes "IndexDir d picks ctx dir = (Some idx, None)"
  shows "\<forall>pg\<in>set (index_pages idx).
           distinct (map ID (Sections pg))
         \<and> (\<forall>cat\<in>set (Sections pg).
              (\<exists>m. PageSearchKey pg = [m]
                  \<and> map ID (Children cat) = module_function_names d ctx dir m)
            \<and> (\<forall>f\<in>set (Children cat). distinct (map ID (Children f))))"
proof
  fix pg assume pg: "pg \<in> set (index_pages idx)"
  let ?m = "mod_name (Path pg)"
  from IndexDir_page[OF assms pg] have key: "PageSearchKey pg = [?m]"
    and sec: "Sections pg = [Section ''func'' ''func'' ''Functions'' '''' [] True
                              (module_functions d ctx dir ?m)]" by simp_all
  have "\<forall>f\<in>set (module_functions d ctx dir ?m). Children f = []"
    using module_functions_leaf by blast
  with key show "distinct (map ID (Sections pg))
         \<and> (\<forall>cat\<in>set (Sections pg).
              (\<exists>m. PageSearchKey pg = [m]
                  \<and> map ID (Children cat) = module_function_names d ctx dir m)
            \<and> (\<forall>f\<in>set (Children cat). distinct (map ID (Children f))))"
    unfolding sec by (simp add: ID_module_functions)
qed

theorem sibling_ids_are_function_names_witness:
  "IndexDir disk [] (Context None) ''dup'' = (Some dup_index, None)
   \<and> module_function_names disk (Context None) ''dup'' ''m'' = [''f'', ''f'']
   \<and> list_all (\<lambda>pg. distinct (map ID (Sections pg))
         \<and> (\<forall>cat\<in>set (Sections pg).
              (\<exists>m. PageSearchKey pg = [m]
                  \<and> map ID (Children cat) = module_function_names disk (Context None) ''dup'' m)
            \<and> (\<forall>f\<in>set (Children cat). distinct (map ID (Children f)))))
       (index_pages dup_index)"
proof -
  have "module_function_names disk (Context None) ''dup'' ''m'' = [''f'', ''f'']" by code_simp
  with sibling_ids_are_function_names[OF disk_dup] disk_dup show ?thesis
    by (simp add: list_all_iff)
qed

text \<open>
  Claim C5. When \<^verbatim>\<open>IndexDir\<close> returns an Index, the walk has found exactly the entries
  that are no directories and whose path ends in \<^verbatim>\<open>.py\<close> or \<^verbatim>\<open>.py3\<close>, in the order of
  the walk; the files skipped are exactly those whose path contains \<^verbatim>\<open>test_\<close>, \<^verbatim>\<open>_test\<close>
  or \<^verbatim>\<open>tests\<close>; the file count is the number of the other files (\<open>kept_files\<close>) and
  the byte count the sum of their lengths, both as Go's \<^verbatim>\<open>int\<close> holds them: exactly,
  as long as they are below \<open>2 ^ 63\<close>.
\<close>

theorem discovery_and_counts:
  assumes "IndexDir d picks ctx dir = (Some idx, None)"
  shows "walk [] (WalkDir d dir) = Inr (discovered (WalkDir d dir))
       \<and> (\<forall>p. skipped p \<longleftrightarrow> sublist ''test_'' p \<or> sublist ''_test'' p \<or> sublist ''tests'' p)
       \<and> NumFiles idx = signed_take_bit 63 (int (length (kept_files d dir)))
       \<and> NumBytes idx = signed_take_bit 63 (\<Sum>p\<leftarrow>kept_files d dir. int (file_size d dir p))
       \<and> (int (length (kept_files d dir)) < 2 ^ 63
            \<longrightarrow> NumFiles idx = int (length (kept_files d dir)))
       \<and> ((\<Sum>p\<leftarrow>kept_files d dir. int (file_size d dir p)) < 2 ^ 63
            \<longrightarrow> NumBytes idx = (\<Sum>p\<leftarrow>kept_files d dir. int (file_size d dir p)))"
proof -
  from IndexDir_Some[OF assms] have "\<forall>v\<in>set (WalkDir d dir). snd (snd v) = None" by blast
  then have w: "walk [] (WalkDir d dir) = Inr (discovered (WalkDir d dir))"
    by (simp add: walk_Inr)
  have k: "kept_files d dir = filter (\<lambda>p. \<not> skipped p) (discovered (WalkDir d dir))"
    by (simp add: kept_files_def skipped_iff)
  from IndexDir_counts[OF assms] have
    f: "NumFiles idx = signed_take_bit 63 (int (length (kept_files d dir)))"
    and b: "NumBytes idx = signed_take_bit 63 (\<Sum>p\<leftarrow>kept_files d dir. int (file_size d dir p))"
    by (simp_all add: k)
  have nonneg: "0 \<le> (\<Sum>p\<leftarrow>kept_files d dir. int (file_size d dir p))"
    by (rule sum_list_nonneg) auto
  have small: "signed_take_bit 63 x = x" if "0 \<le> x" "x < 2 ^ 63" for x :: int
    using that by (intro signed_take_bit_int_eq_self) auto
  from w f b nonneg small show ?thesis by (simp add: skipped_iff)
qed

theorem discovery_and_counts_witness:
  "IndexDir disk [] (Context None) ''proj'' = (Some proj_index, None)
   \<and> discovered (WalkDir disk ''proj'') = [''pkg.py'', ''pkg_test.py'', ''util/io.py3'']
   \<and> kept_files disk ''proj'' = [''pkg.py'', ''util/io.py3'']
   \<and> map (file_size disk ''proj'') (kept_files disk ''proj'') = [52, 17]
   \<and> NumFiles proj_index = 2 \<and> NumBytes proj_index = 69"
proof -
  have e: "discovered (WalkDir disk ''proj'') = [''pkg.py'', ''pkg_test.py'', ''util/io.py3'']"
    "kept_files disk ''proj'' = [''pkg.py'', ''util/io.py3'']"
    "map (file_size disk ''proj'') (kept_files disk ''proj'') = [52, 17]"
    by code_simp+
  have s: "(\<Sum>p\<leftarrow>kept_files disk ''proj''. int (file_size disk ''proj'' p)) = 69"
    by code_simp
  from discovery_and_counts[OF disk_proj] e s disk_proj show ?thesis by simp
qed

text \<open>
  Claim C6 as stated fails. Under a cancelled context the parse of the long file \<^verbatim>\<open>big.py\<close>
  of the directory \<^verbatim>\<open>big\<close> is aborted, and \<^verbatim>\<open>IndexDir\<close> returns the parser's error under
  the label \<^verbatim>\<open>ParseCtx\<close>: the text of the error is \<^verbatim>\<open>ParseCtx: context canceled\<close> and does
  not hold the path of the file.
\<close>

theorem error_without_path_counterexample:
  "discovered (WalkDir disk ''big'') = [''big.py'']
   \<and> ReadFile disk ''big'' ''big.py'' = Inr big_src
   \<and> ParseCtx disk (Context (Some Canceled)) big_src = Inl Canceled
   \<and> IndexDir disk [] (Context (Some Canceled)) ''big'' = (None, Some (Wrap Canceled ''ParseCtx''))
   \<and> Error (Wrap Canceled ''ParseCtx'') = ''ParseCtx: context canceled''
   \<and> \<not> Contains (Error (Wrap Canceled ''ParseCtx'')) ''big.py''"
proof -
  have "Error (Wrap Canceled ''ParseCtx'') = ''ParseCtx: context canceled''"
    and "\<not> Contains (Error (Wrap Canceled ''ParseCtx'')) ''big.py''"
    by code_simp+
  with disk_big_file disk_big_cancelled[of "[]"] show ?thesis by simp
qed

text \<open>
  Claim C6, amended. \<^verbatim>\<open>IndexDir\<close> returns either an Index and no error, or an error and
  no Index. Every failure of the walk, of reading or parsing a file that is not skipped,
  or of building a query ends the run, and the error returned is the error of the failed
  call wrapped under the name of the call (\<^verbatim>\<open>WalkDir\<close>, \<^verbatim>\<open>ReadFile\<close>, \<^verbatim>\<open>ParseCtx\<close>,
  \<^verbatim>\<open>NewQuery\<close>), with the text \<^verbatim>\<open>name: text of the cause\<close>; \<^verbatim>\<open>IndexDir\<close> adds no path, so
  the path is named only where the cause names it. When an Index is returned, nothing has
  failed.
\<close>

theorem failures_are_returned:
  "((\<exists>idx. IndexDir d picks ctx dir = (Some idx, None))
      \<noteq> (\<exists>err. IndexDir d picks ctx dir = (None, Some err)))
   \<and> (\<forall>err. IndexDir d picks ctx dir = (None, Some err) \<longrightarrow>
         (\<exists>c p is_dir. (p, is_dir, Some c) \<in> set (WalkDir d dir) \<and> err = Wrap c ''WalkDir'')
       \<or> (\<exists>p\<in>set (discovered (WalkDir d dir)). \<not> skipped p \<and>
            ((\<exists>c. ReadFile d dir p = Inl c \<and> err = Wrap c ''ReadFile'')
           \<or> (\<exists>c content. ReadFile d dir p = Inr content \<and> ParseCtx d ctx content = Inl c
                 \<and> err = Wrap c ''ParseCtx'')
           \<or> (\<exists>c q. NewQuery d q = Some c \<and> err = Wrap c ''NewQuery''))))
   \<and> (\<forall>c label. Error (Wrap c label) = label @ '': '' @ Error c)
   \<and> (\<forall>idx. IndexDir d picks ctx dir = (Some idx, None) \<longrightarrow>
         (\<forall>v\<in>set (WalkDir d dir). snd (snd v) = None)
       \<and> (\<forall>p\<in>set (discovered (WalkDir d dir)). \<not> skipped p \<longrightarrow>
            (\<exists>content tree. ReadFile d dir p = Inr content \<and> ParseCtx d ctx content = Inr tree)
          \<and> NewQuery d ModuleQuery = None \<and> NewQuery d FunctionQuery = None))"
proof -
  have ok: "(\<forall>v\<in>set (WalkDir d dir). snd (snd v) = None)
       \<and> (\<forall>p\<in>set (discovered (WalkDir d dir)). \<not> skipped p \<longrightarrow>
            (\<exists>content tree. ReadFile d dir p = Inr content \<and> ParseCtx d ctx content = Inr tree)
          \<and> NewQuery d ModuleQuery = None \<and> NewQuery d FunctionQuery = None)"
    if r: "IndexDir d picks ctx dir = (Some idx, None)" for idx
  proof -
    from IndexDir_Some[OF r] obtain st where w: "\<forall>v\<in>set (WalkDir d dir). snd (snd v) = None"
      and st: "index_files d ctx dir initial (discovered (WalkDir d dir)) = Inr st" by blast
    have "(\<exists>content tree. ReadFile d dir p = Inr content \<and> ParseCtx d ctx content = Inr tree)
          \<and> NewQuery d ModuleQuery = None \<and> NewQuery d FunctionQuery = None"
      if "p \<in> set (discovered (WalkDir d dir))" "\<not> skipped p" for p
      using index_files_parsed[OF st that] by (auto simp: parsed_Some)
    with w show ?thesis by blast
  qed
  from IndexDir_shape[of d picks ctx dir] IndexDir_None[of d picks ctx dir] ok
  show ?thesis by simp
qed

theorem failures_are_returned_witness:
  "IndexDir disk [] (Context None) ''nowhere''
     = (None, Some (Wrap (Failure ''stat .: no such file or directory'') ''WalkDir''))
   \<and> Error (Wrap (Failure ''stat .: no such file or directory'') ''WalkDir'')
       = ''WalkDir: stat .: no such file or directory''
   \<and> ((\<exists>c p is_dir. (p, is_dir, Some c) \<in> set (WalkDir disk ''nowhere'')
          \<and> Wrap (Failure ''stat .: no such file or directory'') ''WalkDir'' = Wrap c ''WalkDir'')
       \<or> (\<exists>p\<in>set (discovered (WalkDir disk ''nowhere'')). \<not> skipped p \<and>
            ((\<exists>c. ReadFile disk ''nowhere'' p = Inl c
                 \<and> Wrap (Failure ''stat .: no such file or directory'') ''WalkDir''
                     = Wrap c ''ReadFile'')
           \<or> (\<exists>c content. ReadFile disk ''nowhere'' p = Inr content
                 \<and> ParseCtx disk (Context None) content = Inl c
                 \<and> Wrap (Failure ''stat .: no such file or directory'') ''WalkDir''
                     = Wrap c ''ParseCtx'')
           \<or> (\<exists>c q. NewQuery disk q = Some c
                 \<and> Wrap (Failure ''stat .: no such file or directory'') ''WalkDir''
                     = Wrap c ''NewQuery''))))
   \<and> IndexDir disk [] (Context None) ''proj'' = (Some proj_index, None)
   \<and> list_all (\<lambda>v. snd (snd v) = None) (WalkDir disk ''proj'')"
proof -
  have r: "IndexDir disk [] (Context None) ''nowhere''
     = (None, Some (Wrap (Failure ''stat .: no such file or directory'') ''WalkDir''))"
    by code_simp
  have e: "Error (Wrap (Failure ''stat .: no such file or directory'') ''WalkDir'')
       = ''WalkDir: stat .: no such file or directory''" by simp
  note f = failures_are_returned[of disk "[]" "Context None" "''nowhere''"]
  note g = failures_are_returned[of disk "[]" "Context None" "''proj''"]
  from f r have a: "(\<exists>c p is_dir. (p, is_dir, Some c) \<in> set (WalkDir disk ''nowhere'')
          \<and> Wrap (Failure ''stat .: no such file or directory'') ''WalkDir'' = Wrap c ''WalkDir'')
       \<or> (\<exists>p\<in>set (discovered (WalkDir disk ''nowhere'')). \<not> skipped p \<and>
            ((\<exists>c. ReadFile disk ''nowhere'' p = Inl c
                 \<and> Wrap (Failure ''stat .: no such file or directory'') ''WalkDir''
                     = Wrap c ''ReadFile'')
           \<or> (\<exists>c content. ReadFile disk ''nowhere'' p = Inr content
                 \<and> ParseCtx disk (Context None) content = Inl c
                 \<and> Wrap (Failure ''stat .: no such file or directory'') ''WalkDir''
                     = Wrap c ''ParseCtx'')
           \<or> (\<exists>c q. NewQuery disk q = Some c
                 \<and> Wrap (Failure ''stat .: no such file or directory'') ''WalkDir''
                     = Wrap c ''NewQuery'')))"
    by blast
  from g disk_proj have b: "list_all (\<lambda>v. snd (snd v) = None) (WalkDir disk ''proj'')"
    unfolding list_all_iff by blast
  from r e a b disk_proj show ?thesis by blast
qed

text \<open>
  Claim C7 as stated fails. \<^verbatim>\<open>IndexDir\<close> hands the context to the parser and looks at it
  nowhere else: when no file is parsed (an empty directory, or one with only skipped
  files) a run under a cancelled context returns an Index and no error.
\<close>

theorem cancelled_run_succeeds_counterexample:
  "Err (Context (Some Canceled)) = Some Canceled
   \<and> IndexDir disk [] (Context (Some Canceled)) ''empty'' =
       (Some \<lparr>SchemaVersion = ''0.0.1'', Language = ''python'', NumFiles = 0, NumBytes = 0,
               Libraries =
                 [\<lparr>Name = ''TODO'', Repository = ''TODO'', LibraryID = ''TODO'',
                   Version = ''TODO'', VersionType = ''TODO'', Pages = []\<rparr>]\<rparr>,
        None)
   \<and> discovered (WalkDir disk ''fixtures'') = [''conftest_x.py'', ''tests/a.py'']
   \<and> IndexDir disk [] (Context (Some Canceled)) ''fixtures'' =
       (Some \<lparr>SchemaVersion = ''0.0.1'', Language = ''python'', NumFiles = 0, NumBytes = 0,
               Libraries =
                 [\<lparr>Name = ''TODO'', Repository = ''TODO'', LibraryID = ''TODO'',
                   Version = ''TODO'', VersionType = ''TODO'', Pages = []\<rparr>]\<rparr>,
        None)"
  by code_simp

text \<open>
  Claim C7, amended. \<^verbatim>\<open>IndexDir\<close> observes the context only through the parser, which it
  calls once for each file that is not skipped: two contexts under which the parser
  answers alike on those files give the same result. When the parser returns an error for
  such a file (under a cancelled context, the context's error of an aborted parse),
  \<^verbatim>\<open>IndexDir\<close> returns no Index but an error; and when the walk raises no error, the
  queries can be built and the files before that one are read and parsed, the error is
  the parser's, wrapped under \<^verbatim>\<open>ParseCtx\<close>. A run under a cancelled context in which no
  parse is aborted, because no file is parsed or because the parser completes each parse,
  returns an Index as under a live context. How soon a running parse is aborted is the
  parser's matter.
\<close>

theorem cancellation_through_parser:
  "(\<forall>ctx'. (\<forall>p\<in>set (discovered (WalkDir d dir)). \<not> skipped p \<longrightarrow>
               (\<forall>content. ReadFile d dir p = Inr content \<longrightarrow>
                  ParseCtx d ctx' content = ParseCtx d ctx content))
           \<longrightarrow> IndexDir d picks ctx' dir = IndexDir d picks ctx dir)
   \<and> (\<forall>p\<in>set (discovered (WalkDir d dir)). \<forall>content e.
         \<not> skipped p \<and> ReadFile d dir p = Inr content \<and> ParseCtx d ctx content = Inl e
         \<longrightarrow> (\<exists>err. IndexDir d picks ctx dir = (None, Some err)))
   \<and> (\<forall>pre p post content e.
         (\<forall>v\<in>set (WalkDir d dir). snd (snd v) = None)
       \<and> discovered (WalkDir d dir) = pre @ p # post
       \<and> (\<forall>q\<in>set pre. \<not> skipped q \<longrightarrow>
             (\<exists>c t. ReadFile d dir q = Inr c \<and> ParseCtx d ctx c = Inr t))
       \<and> NewQuery d ModuleQuery = None \<and> NewQuery d FunctionQuery = None
       \<and> \<not> skipped p \<and> ReadFile d dir p = Inr content \<and> ParseCtx d ctx content = Inl e
       \<longrightarrow> IndexDir d picks ctx dir = (None, Some (Wrap e ''ParseCtx'')))"
proof -
  have same: "IndexDir d picks ctx' dir = IndexDir d picks ctx dir"
    if "\<forall>p\<in>set (discovered (WalkDir d dir)). \<not> skipped p \<longrightarrow>
               (\<forall>content. ReadFile d dir p = Inr content \<longrightarrow>
                  ParseCtx d ctx' content = ParseCtx d ctx content)" for ctx'
  proof (cases "walk [] (WalkDir d dir)")
    case (Inl err)
    then show ?thesis by (simp add: IndexDir_def)
  next
    case (Inr sources)
    then have "sources = discovered (WalkDir d dir)" by (simp add: walk_Inr)
    with that have "index_files d ctx' dir initial sources = index_files d ctx dir initial sources"
      by (intro index_files_same_parses) simp
    with Inr show ?thesis by (simp add: IndexDir_def)
  qed
  have no_index: "\<exists>err. IndexDir d picks ctx dir = (None, Some err)"
    if p: "p \<in> set (discovered (WalkDir d dir))" and ns: "\<not> skipped p"
      and rd: "ReadFile d dir p = Inr content" and ps: "ParseCtx d ctx content = Inl e"
    for p content e
  proof (rule ccontr)
    assume "\<not> (\<exists>err. IndexDir d picks ctx dir = (None, Some err))"
    with IndexDir_shape[of d picks ctx dir] obtain idx where
      "IndexDir d picks ctx dir = (Some idx, None)" by auto
    from IndexDir_Some[OF this] obtain st where
      "index_files d ctx dir initial (discovered (WalkDir d dir)) = Inr st" by blast
    from index_files_parsed[OF this p ns] rd ps show False
      by (auto simp: parsed_def)
  qed
  have first: "IndexDir d picks ctx dir = (None, Some (Wrap e ''ParseCtx''))"
    if w: "\<forall>v\<in>set (WalkDir d dir). snd (snd v) = None"
      and src: "discovered (WalkDir d dir) = pre @ p # post"
      and pre: "\<forall>q\<in>set pre. \<not> skipped q \<longrightarrow>
             (\<exists>c t. ReadFile d dir q = Inr c \<and> ParseCtx d ctx c = Inr t)"
      and q: "NewQuery d ModuleQuery = None" "NewQuery d FunctionQuery = None"
      and ns: "\<not> skipped p" and rd: "ReadFile d dir p = Inr content"
      and ps: "ParseCtx d ctx content = Inl e"
    for pre p post content e
  proof -
    from w have wk: "walk [] (WalkDir d dir) = Inr (pre @ p # post)"
      by (simp add: walk_Inr src)
    from pre have "\<forall>q\<in>set pre. \<not> skipped q \<longrightarrow> parsed d ctx dir q \<noteq> None"
      by (auto simp: parsed_def)
    from index_files_parsed_ok[OF this q] obtain st where
      st: "index_files d ctx dir initial pre = Inr st" by blast
    have "index_file d ctx dir st p = Inl (Wrap e ''ParseCtx'')"
      using ns rd ps by (simp add: index_file_def)
    with st have "index_files d ctx dir initial (pre @ p # post) = Inl (Wrap e ''ParseCtx'')"
      by (simp add: index_files_append)
    with wk show ?thesis by (simp add: IndexDir_def)
  qed
  from same no_index first show ?thesis by blast
qed

theorem cancellation_through_parser_witness:
  "ParseCtx disk (Context (Some Canceled)) run_src = ParseCtx disk (Context None) run_src
   \<and> IndexDir disk [] (Context (Some Canceled)) ''acme'' = (Some acme_index, None)
   \<and> list_all (\<lambda>v. snd (snd v) = None) (WalkDir disk ''big'')
   \<and> discovered (WalkDir disk ''big'') = [] @ ''big.py'' # []
   \<and> \<not> skipped ''big.py''
   \<and> ReadFile disk ''big'' ''big.py'' = Inr big_src
   \<and> ParseCtx disk (Context (Some Canceled)) big_src = Inl Canceled
   \<and> IndexDir disk [] (Context (Some Canceled)) ''big'' = (None, Some (Wrap Canceled ''ParseCtx''))"
proof -
  note t = cancellation_through_parser[of disk]
  have acme_src: "discovered (WalkDir disk ''acme'') = [''pkg.py'']"
    "ReadFile disk ''acme'' ''pkg.py'' = Inr run_src"
    by code_simp+
  from t[of "''acme''" "Context None" "[]"] have
    "(\<forall>p\<in>set (discovered (WalkDir disk ''acme'')). \<not> skipped p \<longrightarrow>
               (\<forall>content. ReadFile disk ''acme'' p = Inr content \<longrightarrow>
                  ParseCtx disk (Context (Some Canceled)) content
                    = ParseCtx disk (Context None) content))
           \<longrightarrow> IndexDir disk [] (Context (Some Canceled)) ''acme''
                 = IndexDir disk [] (Context None) ''acme''"
    by blast
  with acme_src disk_run_cancelled disk_acme
  have a: "IndexDir disk [] (Context (Some Canceled)) ''acme'' = (Some acme_index, None)"
    by simp
  have w: "\<forall>v\<in>set (WalkDir disk ''big''). snd (snd v) = None"
    by (simp add: disk_def)
  have q: "NewQuery disk ModuleQuery = None" "NewQuery disk FunctionQuery = None"
    by (simp_all add: disk_def)
  from t[of "''big''" "Context (Some Canceled)" "[]"] have
    "(\<forall>v\<in>set (WalkDir disk ''big''). snd (snd v) = None)
       \<and> discovered (WalkDir disk ''big'') = [] @ ''big.py'' # []
       \<and> (\<forall>q\<in>set []. \<not> skipped q \<longrightarrow>
             (\<exists>c t. ReadFile disk ''big'' q = Inr c \<and> ParseCtx disk (Context (Some Canceled)) c = Inr t))
       \<and> NewQuery disk ModuleQuery = None \<and> NewQuery disk FunctionQuery = None
       \<and> \<not> skipped ''big.py'' \<and> ReadFile disk ''big'' ''big.py'' = Inr big_src
       \<and> ParseCtx disk (Context (Some Canceled)) big_src = Inl Canceled
       \<longrightarrow> IndexDir disk [] (Context (Some Canceled)) ''big''
            = (None, Some (Wrap Canceled ''ParseCtx''))"
    by blast
  with w q disk_big_file
  have b: "IndexDir disk [] (Context (Some Canceled)) ''big''
            = (None, Some (Wrap Canceled ''ParseCtx''))"
    by simp
  from a b w disk_big_file disk_run_cancelled show ?thesis by (simp add: list_all_iff)
qed

text \<open>
  Claim C8. In an Index that \<^verbatim>\<open>IndexDir\<close> returns, every Page belongs to a discovered
  file that was not skipped and has the SearchKey \<open>[moduleName]\<close>, and every function
  Section below it has the SearchKey \<open>[moduleName, ''.'', functionName]\<close>, where
  \<open>moduleName\<close> is the path of the file without a trailing \<^verbatim>\<open>.py\<close> and with every
  \<^verbatim>\<open>/\<close> replaced by a dot (\<open>dotted_name\<close>). Conversely every file that is not skipped
  and whose module query matched has such a Page, with such a Section for each of its
  exported functions.
\<close>

theorem search_keys:
  assumes "IndexDir d picks ctx dir = (Some idx, None)"
  shows "(\<forall>pg\<in>set (index_pages idx).
            Path pg \<in> set (discovered (WalkDir d dir)) \<and> \<not> skipped (Path pg)
          \<and> PageSearchKey pg = [dotted_name (Path pg)]
          \<and> (\<forall>cat\<in>set (Sections pg). \<forall>s\<in>set (Children cat).
                SearchKey s = [dotted_name (Path pg), ''.'', ID s]))
       \<and> (\<forall>p\<in>set (discovered (WalkDir d dir)). \<forall>content tree.
            \<not> skipped p \<and> ReadFile d dir p = Inr content \<and> ParseCtx d ctx content = Inr tree
            \<and> module_matches tree \<noteq> []
            \<longrightarrow> (\<exists>pg\<in>set (index_pages idx). PageSearchKey pg = [dotted_name p]
                  \<and> (\<forall>fm\<in>set (function_matches tree). \<not> unexported (func_name content fm)
                       \<longrightarrow> (\<exists>cat\<in>set (Sections pg). \<exists>s\<in>set (Children cat).
                              ID s = func_name content fm
                            \<and> SearchKey s = [dotted_name p, ''.'', func_name content fm]))))"
proof -
  have pages: "Path pg \<in> set (discovered (WalkDir d dir)) \<and> \<not> skipped (Path pg)
          \<and> PageSearchKey pg = [dotted_name (Path pg)]
          \<and> (\<forall>cat\<in>set (Sections pg). \<forall>s\<in>set (Children cat).
                SearchKey s = [dotted_name (Path pg), ''.'', ID s])"
    if pg: "pg \<in> set (index_pages idx)" for pg
  proof -
    from IndexDir_page[OF assms pg] have src: "Path pg \<in> set (discovered (WalkDir d dir))"
      and hm: "has_module d ctx dir (Path pg)"
      and key: "PageSearchKey pg = [mod_name (Path pg)]"
      and sec: "Sections pg = [Section ''func'' ''func'' ''Functions'' '''' [] True
                                (module_functions d ctx dir (mod_name (Path pg)))]"
      by simp_all
    from hm have ns: "\<not> skipped (Path pg)" by (simp add: has_module_def)
    have "\<forall>cat\<in>set (Sections pg). \<forall>s\<in>set (Children cat).
            SearchKey s = [mod_name (Path pg), ''.'', ID s]"
      unfolding sec using module_functions_leaf by simp
    with src ns key show ?thesis by (simp add: mod_name_eq)
  qed
  have files: "\<exists>pg\<in>set (index_pages idx). PageSearchKey pg = [dotted_name p]
                  \<and> (\<forall>fm\<in>set (function_matches tree). \<not> unexported (func_name content fm)
                       \<longrightarrow> (\<exists>cat\<in>set (Sections pg). \<exists>s\<in>set (Children cat).
                              ID s = func_name content fm
                            \<and> SearchKey s = [dotted_name p, ''.'', func_name content fm]))"
    if p: "p \<in> set (discovered (WalkDir d dir))" and ns: "\<not> skipped p"
      and rd: "ReadFile d dir p = Inr content" and ps: "ParseCtx d ctx content = Inr tree"
      and mm: "module_matches tree \<noteq> []"
    for p content tree
  proof -
    from rd ps have pr: "parsed d ctx dir p = Some (content, tree)" by (simp add: parsed_Some)
    with ns mm have hm: "has_module d ctx dir p" by (simp add: has_module_def)
    from IndexDir_has_page[OF assms p hm] obtain pg where pg: "pg \<in> set (index_pages idx)"
      and key: "PageSearchKey pg = [mod_name p]" by blast
    from IndexDir_page[OF assms pg] key have
      sec: "Sections pg = [Section ''func'' ''func'' ''Functions'' '''' [] True
                           (module_functions d ctx dir (mod_name p))]"
      by simp
    have "\<exists>cat\<in>set (Sections pg). \<exists>s\<in>set (Children cat).
            ID s = func_name content fm \<and> SearchKey s = [mod_name p, ''.'', func_name content fm]"
      if fm: "fm \<in> set (function_matches tree)" and ne: "\<not> unexported (func_name content fm)"
      for fm
    proof -
      from file_functions_intro[OF ns pr fm ne] mm
      have "function_section (mod_name p) content fm
              \<in> set (file_functions d ctx dir (mod_name p) p)"
        by (simp add: current_module_def)
      with p have "function_section (mod_name p) content fm
                     \<in> set (module_functions d ctx dir (mod_name p))"
        by (auto simp: module_functions_def)
      then show ?thesis unfolding sec
        by (auto simp: function_section_sel
              intro!: bexI[of _ "function_section (mod_name p) content fm"])
    qed
    with pg key show ?thesis by (auto simp: mod_name_eq)
  qed
  from pages files show ?thesis by blast
qed

theorem search_keys_witness:
  "IndexDir disk [] (Context None) ''acme'' = (Some acme_index, None)
   \<and> ''pkg.py'' \<in> set (discovered (WalkDir disk ''acme'')) \<and> \<not> skipped ''pkg.py''
   \<and> ReadFile disk ''acme'' ''pkg.py'' = Inr run_src
   \<and> ParseCtx disk (Context None) run_src = Inr run_tree
   \<and> module_matches run_tree \<noteq> []
   \<and> map (func_name run_src) (function_matches run_tree) = [''run'']
   \<and> map PageSearchKey (index_pages acme_index) = [[''pkg'']]
   \<and> (\<exists>pg\<in>set (index_pages acme_index). PageSearchKey pg = [''pkg'']
        \<and> (\<exists>cat\<in>set (Sections pg). \<exists>s\<in>set (Children cat).
              ID s = ''run'' \<and> SearchKey s = [''pkg'', ''.'', ''run'']))"
proof -
  let ?fm = "[capture ''func_name'' 4 7, capture ''func_params'' 7 9]"
  from search_keys[OF disk_acme] have
    "\<forall>p\<in>set (discovered (WalkDir disk ''acme'')). \<forall>content tree.
       \<not> skipped p \<and> ReadFile disk ''acme'' p = Inr content
       \<and> ParseCtx disk (Context None) content = Inr tree \<and> module_matches tree \<noteq> []
       \<longrightarrow> (\<exists>pg\<in>set (index_pages acme_index). PageSearchKey pg = [dotted_name p]
             \<and> (\<forall>fm\<in>set (function_matches tree). \<not> unexported (func_name content fm)
                  \<longrightarrow> (\<exists>cat\<in>set (Sections pg). \<exists>s\<in>set (Children cat).
                         ID s = func_name content fm
                       \<and> SearchKey s = [dotted_name p, ''.'', func_name content fm])))"
    by (rule conjunct2)
  from this[rule_format, OF disk_acme_file(1), of run_src run_tree] disk_acme_file
  have b: "\<exists>pg\<in>set (index_pages acme_index). PageSearchKey pg = [''pkg'']
        \<and> (\<exists>cat\<in>set (Sections pg). \<exists>s\<in>set (Children cat).
              ID s = ''run'' \<and> SearchKey s = [''pkg'', ''.'', ''run''])"
    by simp
  have c: "map PageSearchKey (index_pages acme_index) = [[''pkg'']]" by code_simp
  from b c disk_acme disk_acme_file show ?thesis by simp
qed

text \<open>
  Claim C9. A Section is a value of a datatype, hence a finite tree without cycles. In an
  Index that \<^verbatim>\<open>IndexDir\<close> returns, every Page has exactly one top-level Section: the
  category node with ID \<^verbatim>\<open>func\<close>, label \<^verbatim>\<open>Functions\<close> and \<open>Category = True\<close>, whose
  children are the function Sections collected for the module of the Page; every function
  Section is a leaf and no category; so no path from a top-level Section to a leaf has more
  than two nodes.
\<close>

theorem section_tree_shape:
  assumes "IndexDir d picks ctx dir = (Some idx, None)"
  shows "\<forall>pg\<in>set (index_pages idx). \<exists>m.
           PageSearchKey pg = [m]
         \<and> Sections pg = [Section ''func'' ''func'' ''Functions'' '''' [] True
                            (module_functions d ctx dir m)]
         \<and> (\<forall>f\<in>set (module_functions d ctx dir m). Category f = False \<and> Children f = [])
         \<and> (\<forall>s\<in>set (Sections pg). depth s \<le> 2)"
proof
  fix pg assume pg: "pg \<in> set (index_pages idx)"
  let ?m = "mod_name (Path pg)"
  from IndexDir_page[OF assms pg] have key: "PageSearchKey pg = [?m]"
    and sec: "Sections pg = [Section ''func'' ''func'' ''Functions'' '''' [] True
                              (module_functions d ctx dir ?m)]" by simp_all
  have leaf: "\<forall>f\<in>set (module_functions d ctx dir ?m). Category f = False \<and> Children f = []"
    using module_functions_leaf by blast
  have "\<forall>f\<in>set (module_functions d ctx dir ?m). depth f = 1"
    using module_functions_leaf by blast
  then have "\<forall>s\<in>set (Sections pg). depth s \<le> 2"
    unfolding sec using depth_category by simp
  with key sec leaf show "\<exists>m. PageSearchKey pg = [m]
         \<and> Sections pg = [Section ''func'' ''func'' ''Functions'' '''' [] True
                            (module_functions d ctx dir m)]
         \<and> (\<forall>f\<in>set (module_functions d ctx dir m). Category f = False \<and> Children f = [])
         \<and> (\<forall>s\<in>set (Sections pg). depth s \<le> 2)" by blast
qed

theorem section_tree_shape_witness:
  "IndexDir disk [] (Context None) ''proj'' = (Some proj_index, None)
   \<and> map depth (index_sections proj_index) = [2, 1, 1, 2, 1]
   \<and> list_all (\<lambda>pg. \<exists>m. PageSearchKey pg = [m]
         \<and> Sections pg = [Section ''func'' ''func'' ''Functions'' '''' [] True
                            (module_functions disk (Context None) ''proj'' m)]
         \<and> (\<forall>f\<in>set (module_functions disk (Context None) ''proj'' m).
               Category f = False \<and> Children f = [])
         \<and> (\<forall>s\<in>set (Sections pg). depth s \<le> 2)) (index_pages proj_index)"
proof -
  have "map depth (index_sections proj_index) = [2, 1, 1, 2, 1]" by code_simp
  with section_tree_shape[OF disk_proj] disk_proj show ?thesis
    by (simp add: list_all_iff)
qed

text \<open>
  Claim C10. For a directory whose walk raises no error and that holds no \<^verbatim>\<open>.py\<close> or
  \<^verbatim>\<open>.py3\<close> file, or only such files as the test heuristic skips, \<^verbatim>\<open>IndexDir\<close> succeeds:
  it returns no error and an Index with file count 0, byte count 0 and exactly one Library,
  whose sequence of Pages is empty.
\<close>

theorem empty_corpus_succeeds:
  assumes "\<forall>v\<in>set (WalkDir d dir). snd (snd v) = None"
    and "\<forall>p\<in>set (discovered (WalkDir d dir)).
           sublist ''test_'' p \<or> sublist ''_test'' p \<or> sublist ''tests'' p"
  shows "IndexDir d picks ctx dir =
           (Some \<lparr>SchemaVersion = LatestVersion d, Language = LanguagePython d,
                   NumFiles = 0, NumBytes = 0,
                   Libraries =
                     [\<lparr>Name = ''TODO'', Repository = ''TODO'', LibraryID = ''TODO'',
                       Version = ''TODO'', VersionType = ''TODO'', Pages = []\<rparr>]\<rparr>,
            None)"
proof -
  have w: "walk [] (WalkDir d dir) = Inr (discovered (WalkDir d dir))"
    using assms(1) by (simp add: walk_Inr)
  have "\<forall>p\<in>set (discovered (WalkDir d dir)). skipped p"
    using assms(2) by (simp add: skipped_iff)
  then have "index_files d ctx dir initial (discovered (WalkDir d dir)) = Inr initial"
    by (rule index_files_all_skipped)
  with w show ?thesis by (simp add: IndexDir_def initial_def)
qed

theorem empty_corpus_succeeds_witness:
  "list_all (\<lambda>v. snd (snd v) = None) (WalkDir disk ''fixtures'')
   \<and> discovered (WalkDir disk ''fixtures'') = [''conftest_x.py'', ''tests/a.py'']
   \<and> list_all (\<lambda>p. sublist ''test_'' p \<or> sublist ''_test'' p \<or> sublist ''tests'' p)
         (discovered (WalkDir disk ''fixtures''))
   \<and> IndexDir disk [] (Context None) ''fixtures'' =
       (Some \<lparr>SchemaVersion = ''0.0.1'', Language = ''python'', NumFiles = 0, NumBytes = 0,
               Libraries =
                 [\<lparr>Name = ''TODO'', Repository = ''TODO'', LibraryID = ''TODO'',
                   Version = ''TODO'', VersionType = ''TODO'', Pages = []\<rparr>]\<rparr>,
        None)"
proof -
  have h1: "\<forall>v\<in>set (WalkDir disk ''fixtures''). snd (snd v) = None"
    by code_simp
  have h2: "\<forall>p\<in>set (discovered (WalkDir disk ''fixtures'')).
              sublist ''test_'' p \<or> sublist ''_test'' p \<or> sublist ''tests'' p"
    by code_simp
  have h3: "discovered (WalkDir disk ''fixtures'') = [''conftest_x.py'', ''tests/a.py'']"
    by code_simp
  have c: "LatestVersion disk = ''0.0.1''" "LanguagePython disk = ''python''"
    by (simp_all add: disk_def)
  from empty_corpus_succeeds[OF h1 h2, of "[]" "Context None"] h1 h2 h3 c
  show ?thesis by (simp add: list_all_iff)
qed

end
